theory Spec2Isabelle
  imports Main
begin

section \<open>Data model of Runtime.cpp\<close>

text \<open>
  Addresses of heap objects, thread identities and the opaque handles of the collaborating
  subsystems (memory manager, workers) are natural numbers. A nullable pointer is an
  \<open>option\<close>: \<open>None\<close> is \<open>nullptr\<close>.
\<close>

type_synonym tid = nat

text \<open>\<open>struct InitNode { Initializer init; InitNode* next; }\<close>. The function pointer
  \<open>init\<close> is the identity of the registered callback.\<close>

record InitNode =
  init :: nat
  next_ptr :: "nat option"

datatype RuntimeStatus = kUninitialized | kRunning | kDestroying

text \<open>\<open>struct RuntimeState\<close>; \<open>status\<close> defaults to \<open>kUninitialized\<close>.\<close>

record RuntimeState =
  memoryState :: nat
  worker :: nat
  status :: RuntimeStatus

datatype GlobalRuntimeStatus =
    kGlobalRuntimeUninitialized
  | kGlobalRuntimeRunning
  | kGlobalRuntimeShuttingDown
  | kGlobalRuntimeShutdown

definition INIT_GLOBALS :: int where "INIT_GLOBALS = 0"
definition INIT_THREAD_LOCAL_GLOBALS :: int where "INIT_THREAD_LOCAL_GLOBALS = 1"
definition DEINIT_THREAD_LOCAL_GLOBALS :: int where "DEINIT_THREAD_LOCAL_GLOBALS = 2"
definition DEINIT_GLOBALS :: int where "DEINIT_GLOBALS = 3"

text \<open>
  Everything the functions of Runtime.cpp do to the outside is logged, in program order, in a
  trace: each call of a collaborator (with its arguments and, where it has one, its result),
  each atomic operation on a process-wide cell (with the value it returned), each call of a
  registered initializer, and the write of a handle's lifecycle flag.
\<close>

datatype event =
    E_consoleErrorf string
  | E_consoleErrorf_int string int
  | E_abort
  | E_atomicAdd_initializingRuntimesCount int int
  | E_atomicAdd_aliveRuntimesCount int int
  | E_compareAndSwap GlobalRuntimeStatus GlobalRuntimeStatus GlobalRuntimeStatus
  | E_SetKonanTerminateHandler
  | E_konanConstructInstance "nat option"
  | E_InitMemory nat
  | E_WorkerInit bool nat
  | E_consoleInit
  | E_ObjCExport_initialize
  | E_InitOrDeinitGlobalVariables int nat
  | E_Initializer nat int nat
  | E_status_write nat RuntimeStatus
  | E_RestoreMemory nat
  | E_WorkerDeinit nat
  | E_DeinitMemory nat
  | E_konanDestructInstance nat
  | E_WorkerDestroyThreadDataIfNeeded int
  | E_onThreadExit "nat option"
  | E_PerformFullGC nat
  | E_ShutdownCleaners bool
  | E_WaitNativeWorkersTermination

text \<open>
  The variables of the translation unit. \<open>nodes\<close> is the memory holding the
  \<open>InitNode\<close> objects (owned by the registering modules), \<open>heap\<close> the memory holding
  the \<open>RuntimeState\<close> objects made by \<open>konanConstructInstance\<close>; the thread-local
  \<open>runtimeState\<close> is one cell per thread. \<open>KONAN_OBJC_INTEROP\<close> is the build flag of
  that name.
\<close>

record state =
  nodes :: "nat \<Rightarrow> InitNode"
  initHeadNode :: "nat option"
  initTailNode :: "nat option"
  g_checkLeaks :: bool
  g_checkLeakedCleaners :: bool
  runtimeState :: "tid \<Rightarrow> nat option"
  heap :: "nat \<Rightarrow> RuntimeState option"
  aliveRuntimesCount :: int
  globalRuntimeStatus :: GlobalRuntimeStatus
  initializingRuntimesCount :: int
  KONAN_OBJC_INTEROP :: bool
  trace :: "(tid \<times> event) list"

text \<open>How a call ends when it does not return: the process was aborted (in the state
  given), or the call dereferenced an invalid pointer, or it runs forever.\<close>

datatype 's fault = Aborted 's | InvalidAccess 's | Diverges

definition emit :: "tid \<Rightarrow> event \<Rightarrow> 'a state_scheme \<Rightarrow> 'a state_scheme" where
  "emit t e s = s\<lparr>trace := trace s @ [(t, e)]\<rparr>"

section \<open>The initializer registry\<close>

text \<open>The loop of \<open>InitOrDeinitGlobalVariables\<close>, from \<open>currentNode\<close> on. A chain that
  runs into a cycle is never left: the result is \<open>None\<close>. The initializers are code of
  other modules: a call is logged, and is taken not to touch the variables of this file.\<close>

partial_function (option) InitOrDeinitGlobalVariables_loop ::
  "tid \<Rightarrow> int \<Rightarrow> nat \<Rightarrow> nat option \<Rightarrow> 'a state_scheme \<Rightarrow> 'a state_scheme option" where
  "InitOrDeinitGlobalVariables_loop t initialize memory currentNode s =
     (case currentNode of
        None \<Rightarrow> Some s
      | Some p \<Rightarrow>
          InitOrDeinitGlobalVariables_loop t initialize memory (next_ptr (nodes s p))
            (emit t (E_Initializer (init (nodes s p)) initialize memory) s))"

declare InitOrDeinitGlobalVariables_loop.simps [code]

definition InitOrDeinitGlobalVariables ::
  "tid \<Rightarrow> int \<Rightarrow> nat \<Rightarrow> 'a state_scheme \<Rightarrow> 'a state_scheme option" where
  "InitOrDeinitGlobalVariables t initialize memory s =
     InitOrDeinitGlobalVariables_loop t initialize memory (initHeadNode s)
       (emit t (E_InitOrDeinitGlobalVariables initialize memory) s)"

text \<open>\<open>AppendToInitializersTail(InitNode *next)\<close>. Writing through a null
  \<open>initTailNode\<close> is an invalid access.\<close>

definition AppendToInitializersTail ::
  "nat option \<Rightarrow> 'a state_scheme \<Rightarrow> 'a state_scheme fault + 'a state_scheme" where
  "AppendToInitializersTail nxt s =
     (if initHeadNode s = None then Inr (s\<lparr>initHeadNode := nxt, initTailNode := nxt\<rparr>)
      else (case initTailNode s of
              None \<Rightarrow> Inl (InvalidAccess s)
            | Some tail \<Rightarrow>
                Inr (s\<lparr>nodes := (nodes s)(tail := (nodes s tail)\<lparr>next_ptr := nxt\<rparr>),
                       initTailNode := nxt\<rparr>)))"

section \<open>Atomic cells and collaborators\<close>

text \<open>
  Modelled from the spec: \<open>atomicAdd\<close> and \<open>compareAndSwap\<close> of Atomic.h, which is
  not among the sources. The spec has the add return the value reached ("this increment
  brought Alive-Count from 0 to 1", "this decrement reached exactly 0") and the
  compare-and-swap return the prior state.
\<close>

definition atomicAdd_initializingRuntimesCount ::
  "tid \<Rightarrow> int \<Rightarrow> 'a state_scheme \<Rightarrow> int \<times> 'a state_scheme" where
  "atomicAdd_initializingRuntimesCount t d s =
     (let v = initializingRuntimesCount s + d
      in (v, emit t (E_atomicAdd_initializingRuntimesCount d v)
               (s\<lparr>initializingRuntimesCount := v\<rparr>)))"

definition atomicAdd_aliveRuntimesCount ::
  "tid \<Rightarrow> int \<Rightarrow> 'a state_scheme \<Rightarrow> int \<times> 'a state_scheme" where
  "atomicAdd_aliveRuntimesCount t d s =
     (let v = aliveRuntimesCount s + d
      in (v, emit t (E_atomicAdd_aliveRuntimesCount d v) (s\<lparr>aliveRuntimesCount := v\<rparr>)))"

definition compareAndSwap_globalRuntimeStatus ::
  "tid \<Rightarrow> GlobalRuntimeStatus \<Rightarrow> GlobalRuntimeStatus \<Rightarrow> 'a state_scheme
     \<Rightarrow> GlobalRuntimeStatus \<times> 'a state_scheme" where
  "compareAndSwap_globalRuntimeStatus t expected new s =
     (globalRuntimeStatus s,
      emit t (E_compareAndSwap expected new (globalRuntimeStatus s))
        (if globalRuntimeStatus s = expected then s\<lparr>globalRuntimeStatus := new\<rparr> else s))"

text \<open>\<open>konan::abort()\<close> ends the process: nothing runs after it, no destructor either.\<close>

definition konan_abort :: "tid \<Rightarrow> 'a state_scheme \<Rightarrow> 'a state_scheme fault + 'b" where
  "konan_abort t s = Inl (Aborted (emit t E_abort s))"

text \<open>
  Modelled from the spec: a failed \<open>RuntimeAssert\<close> or \<open>RuntimeCheck\<close> of KAssert.h
  (not among the sources) is fatal ("fatal assert otherwise"): the message is printed and the
  process aborted.
\<close>

definition RuntimeAssertFailed ::
  "tid \<Rightarrow> string \<Rightarrow> 'a state_scheme \<Rightarrow> 'a state_scheme fault + 'b" where
  "RuntimeAssertFailed t message s = konan_abort t (emit t (E_consoleErrorf message) s)"

text \<open>
  Modelled from the spec: \<open>konanConstructInstance<RuntimeState>()\<close> of Alloc.h (not among
  the sources) allocates the handle and runs its constructor, or gives the null pointer when
  the allocation fails. Whether it succeeds, and where, is the allocator's choice
  \<open>alloc\<close>.
\<close>

definition konanConstructInstance ::
  "tid \<Rightarrow> nat option \<Rightarrow> 'a state_scheme \<Rightarrow> 'a state_scheme" where
  "konanConstructInstance t alloc s =
     emit t (E_konanConstructInstance alloc)
       (case alloc of
          None \<Rightarrow> s
        | Some p \<Rightarrow>
            s\<lparr>heap := (heap s)(p \<mapsto> \<lparr>memoryState = 0, worker = 0, status = kUninitialized\<rparr>)\<rparr>)"

text \<open>Modelled from the spec: \<open>GetWorkerId\<close> of Worker.h (not among the sources); the
  spec identifies a worker with its id.\<close>

definition GetWorkerId :: "nat \<Rightarrow> int" where
  "GetWorkerId w = int w"

definition isValidRuntime :: "tid \<Rightarrow> 'a state_scheme \<Rightarrow> bool" where
  "isValidRuntime t s = (runtimeState s t \<noteq> None)"

definition Kotlin_memoryLeakCheckerEnabled :: "'a state_scheme \<Rightarrow> bool" where
  "Kotlin_memoryLeakCheckerEnabled s = g_checkLeaks s"

definition Konan_Platform_setMemoryLeakChecker :: "bool \<Rightarrow> 'a state_scheme \<Rightarrow> 'a state_scheme" where
  "Konan_Platform_setMemoryLeakChecker v s = s\<lparr>g_checkLeaks := v\<rparr>"

definition Kotlin_cleanersLeakCheckerEnabled :: "'a state_scheme \<Rightarrow> bool" where
  "Kotlin_cleanersLeakCheckerEnabled s = g_checkLeakedCleaners s"

definition Konan_Platform_setCleanersLeakChecker :: "bool \<Rightarrow> 'a state_scheme \<Rightarrow> 'a state_scheme" where
  "Konan_Platform_setCleanersLeakChecker v s = s\<lparr>g_checkLeakedCleaners := v\<rparr>"

section \<open>Construction and teardown of a thread's runtime\<close>

text \<open>
  \<open>initRuntime()\<close> on thread \<open>t\<close>. \<open>alloc\<close> is the result of the allocation,
  \<open>mem\<close> what \<open>InitMemory()\<close> returns and \<open>wrk\<close> what \<open>WorkerInit(true)\<close>
  returns. The guard's constructor and destructor are the first and the last atomic add.
\<close>

definition initRuntime ::
  "tid \<Rightarrow> nat option \<Rightarrow> nat \<Rightarrow> nat \<Rightarrow> 'a state_scheme
     \<Rightarrow> 'a state_scheme fault + nat option \<times> 'a state_scheme" where
  "initRuntime t alloc mem wrk s =
     (let (g, s1) = atomicAdd_initializingRuntimesCount t 1 s;
          (lastStatus, s2) =
             compareAndSwap_globalRuntimeStatus t kGlobalRuntimeUninitialized kGlobalRuntimeRunning s1
      in if lastStatus = kGlobalRuntimeShutdown
         then konan_abort t
                (emit t (E_consoleErrorf ''Kotlin runtime was shut down. Cannot create new runtimes\<newline>'') s2)
         else
           let s3 = emit t E_SetKonanTerminateHandler s2;
               s4 = konanConstructInstance t alloc s3
           in (case alloc of
                 None \<Rightarrow> Inr (None, snd (atomicAdd_initializingRuntimesCount t (- 1) s4))
               | Some result \<Rightarrow>
                   if isValidRuntime t s4 then RuntimeAssertFailed t ''No active runtimes allowed'' s4
                   else
                     let s5 = s4\<lparr>runtimeState := (runtimeState s4)(t := Some result)\<rparr>;
                         s6 = emit t (E_InitMemory mem) s5;
                         s7 = s6\<lparr>heap := (heap s6)(result :=
                                 map_option (\<lambda>r. r\<lparr>memoryState := mem\<rparr>) (heap s6 result))\<rparr>;
                         s8 = emit t (E_WorkerInit True wrk) s7;
                         s9 = s8\<lparr>heap := (heap s8)(result :=
                                 map_option (\<lambda>r. r\<lparr>worker := wrk\<rparr>) (heap s8 result))\<rparr>;
                         (n, s10) = atomicAdd_aliveRuntimesCount t 1 s9;
                         firstRuntime = (n = 1)
                     in (case (if firstRuntime
                               then InitOrDeinitGlobalVariables t INIT_GLOBALS mem
                                      (let s11 = emit t E_consoleInit s10
                                       in if KONAN_OBJC_INTEROP s11
                                          then emit t E_ObjCExport_initialize s11 else s11)
                               else Some s10) of
                           None \<Rightarrow> Inl Diverges
                         | Some s12 \<Rightarrow>
                             (case InitOrDeinitGlobalVariables t INIT_THREAD_LOCAL_GLOBALS mem s12 of
                                None \<Rightarrow> Inl Diverges
                              | Some s13 \<Rightarrow>
                                  (case heap s13 result of
                                     None \<Rightarrow> Inl (InvalidAccess s13)
                                   | Some r \<Rightarrow>
                                       if status r \<noteq> kUninitialized
                                       then RuntimeAssertFailed t
                                              ''Runtime must still be in the uninitialized state'' s13
                                       else
                                         let s14 = emit t (E_status_write result kRunning)
                                                     (s13\<lparr>heap := (heap s13)(result \<mapsto>
                                                            r\<lparr>status := kRunning\<rparr>)\<rparr>)
                                         in Inr (Some result,
                                                 snd (atomicAdd_initializingRuntimesCount t (- 1) s14)))))))"

text \<open>\<open>deinitRuntime(RuntimeState* state)\<close> on thread \<open>t\<close>.\<close>

definition deinitRuntime ::
  "tid \<Rightarrow> nat option \<Rightarrow> 'a state_scheme \<Rightarrow> 'a state_scheme fault + 'a state_scheme" where
  "deinitRuntime t state s =
     (case state of
        None \<Rightarrow> Inl (InvalidAccess s)
      | Some p \<Rightarrow>
          (case heap s p of
             None \<Rightarrow> Inl (InvalidAccess s)
           | Some r \<Rightarrow>
               if status r \<noteq> kRunning
               then RuntimeAssertFailed t ''Runtime must be in the running state'' s
               else
                 let s1 = emit t (E_status_write p kDestroying)
                            (s\<lparr>heap := (heap s)(p \<mapsto> r\<lparr>status := kDestroying\<rparr>)\<rparr>);
                     s2 = emit t (E_RestoreMemory (memoryState r)) s1;
                     (n, s3) = atomicAdd_aliveRuntimesCount t (- 1) s2;
                     lastRuntime = (n = 0)
                 in (case InitOrDeinitGlobalVariables t DEINIT_THREAD_LOCAL_GLOBALS (memoryState r) s3 of
                       None \<Rightarrow> Inl Diverges
                     | Some s4 \<Rightarrow>
                         (case (if lastRuntime
                                then InitOrDeinitGlobalVariables t DEINIT_GLOBALS (memoryState r) s4
                                else Some s4) of
                            None \<Rightarrow> Inl Diverges
                          | Some s5 \<Rightarrow>
                              let workerId = GetWorkerId (worker r);
                                  s6 = emit t (E_WorkerDeinit (worker r)) s5;
                                  s7 = emit t (E_DeinitMemory (memoryState r)) s6;
                                  s8 = emit t (E_konanDestructInstance p)
                                         (s7\<lparr>heap := (heap s7)(p := None)\<rparr>)
                              in Inr (emit t (E_WorkerDestroyThreadDataIfNeeded workerId) s8)))))"

definition Kotlin_deinitRuntimeCallback ::
  "tid \<Rightarrow> nat option \<Rightarrow> 'a state_scheme \<Rightarrow> 'a state_scheme fault + 'a state_scheme" where
  "Kotlin_deinitRuntimeCallback t argument s = deinitRuntime t argument s"

section \<open>The public entry points\<close>

text \<open>\<open>konan::onThreadExit(Kotlin_deinitRuntimeCallback, runtimeState)\<close> is logged with
  the argument it registers.\<close>

definition Kotlin_initRuntimeIfNeeded ::
  "tid \<Rightarrow> nat option \<Rightarrow> nat \<Rightarrow> nat \<Rightarrow> 'a state_scheme
     \<Rightarrow> 'a state_scheme fault + 'a state_scheme" where
  "Kotlin_initRuntimeIfNeeded t alloc mem wrk s =
     (if \<not> isValidRuntime t s
      then (case initRuntime t alloc mem wrk s of
              Inl f \<Rightarrow> Inl f
            | Inr (result, s1) \<Rightarrow> Inr (emit t (E_onThreadExit (runtimeState s1 t)) s1))
      else Inr s)"

definition Kotlin_deinitRuntimeIfNeeded ::
  "tid \<Rightarrow> 'a state_scheme \<Rightarrow> 'a state_scheme fault + 'a state_scheme" where
  "Kotlin_deinitRuntimeIfNeeded t s =
     (if isValidRuntime t s
      then (case deinitRuntime t (runtimeState s t) s of
              Inl f \<Rightarrow> Inl f
            | Inr s1 \<Rightarrow> Inr (s1\<lparr>runtimeState := (runtimeState s1)(t := None)\<rparr>))
      else Inr s)"

text \<open>\<open>while (ScopedInitializingRuntime::IsInitializing()) {}\<close>\<close>

partial_function (option) spin_IsInitializing :: "'a state_scheme \<Rightarrow> 'a state_scheme option" where
  "spin_IsInitializing s =
     (if initializingRuntimesCount s > 0 then spin_IsInitializing s else Some s)"

declare spin_IsInitializing.simps [code]

definition Kotlin_shutdownRuntime ::
  "tid \<Rightarrow> 'a state_scheme \<Rightarrow> 'a state_scheme fault + 'a state_scheme" where
  "Kotlin_shutdownRuntime t s =
     (let (lastStatus, s1) =
            compareAndSwap_globalRuntimeStatus t kGlobalRuntimeRunning kGlobalRuntimeShuttingDown s
      in case lastStatus of
           kGlobalRuntimeShuttingDown \<Rightarrow>
             konan_abort t (emit t (E_consoleErrorf ''Cannot shutdown Kotlin runtime twice\<newline>'') s1)
         | kGlobalRuntimeShutdown \<Rightarrow>
             konan_abort t (emit t (E_consoleErrorf ''Cannot shutdown Kotlin runtime twice\<newline>'') s1)
         | kGlobalRuntimeUninitialized \<Rightarrow>
             konan_abort t (emit t (E_consoleErrorf ''Kotlin runtime must have been initialized\<newline>'') s1)
         | kGlobalRuntimeRunning \<Rightarrow>
             (case runtimeState s1 t of
                None \<Rightarrow>
                  konan_abort t
                    (emit t (E_consoleErrorf
                       ''Current thread must have Kotlin runtime initialized on it\<newline>'') s1)
              | Some runtime \<Rightarrow>
                  (case (if Kotlin_cleanersLeakCheckerEnabled s1
                         then (case heap s1 runtime of
                                 None \<Rightarrow> Inl (InvalidAccess s1)
                               | Some r \<Rightarrow> Inr (emit t (E_PerformFullGC (memoryState r)) s1))
                         else Inr s1) of
                     Inl f \<Rightarrow> Inl f
                   | Inr s2 \<Rightarrow>
                       let s3 = emit t (E_ShutdownCleaners (Kotlin_cleanersLeakCheckerEnabled s2)) s2;
                           (lastStatus2, s4) =
                              compareAndSwap_globalRuntimeStatus t
                                kGlobalRuntimeShuttingDown kGlobalRuntimeShutdown s3
                       in if lastStatus2 \<noteq> kGlobalRuntimeShuttingDown
                          then RuntimeAssertFailed t ''Must be in ShuttingDown state'' s4
                          else
                            (case spin_IsInitializing s4 of
                               None \<Rightarrow> Inl Diverges
                             | Some s5 \<Rightarrow>
                                 (case (if Kotlin_memoryLeakCheckerEnabled s5
                                           \<or> Kotlin_memoryLeakCheckerEnabled s5
                                        then
                                          let s6 = emit t E_WaitNativeWorkersTermination s5;
                                              otherRuntimesCount = aliveRuntimesCount s6 - 1
                                          in if \<not> otherRuntimesCount \<ge> 0
                                             then RuntimeAssertFailed t ''Cannot be negative'' s6
                                             else if otherRuntimesCount > 0
                                             then konan_abort t
                                                    (emit t (E_consoleErrorf_int
                                                       ''Cannot run checkers when there are %d alive runtimes at the shutdown''
                                                       otherRuntimesCount) s6)
                                             else Inr s6
                                        else Inr s5) of
                                    Inl f \<Rightarrow> Inl f
                                  | Inr s7 \<Rightarrow>
                                      (case deinitRuntime t (Some runtime) s7 of
                                         Inl f \<Rightarrow> Inl f
                                       | Inr s8 \<Rightarrow>
                                           Inr (s8\<lparr>runtimeState :=
                                                  (runtimeState s8)(t := None)\<rparr>)))))))"

section \<open>Threads running the entry points concurrently\<close>

text \<open>
  The same code, one atomic action at a time. A thread is at a program point \<open>pc\<close>, which
  carries the local variables that are live there (\<open>result\<close>, \<open>state\<close>,
  \<open>runtime\<close>, \<open>lastRuntime\<close>, \<open>workerId\<close>). An action is one access to a
  process-wide cell or to the lifecycle flag of a handle, or one call of a collaborator with
  the reads of its arguments and the store of its result, together with the accesses to the
  thread-local \<open>runtimeState\<close> that follow it in the source. A handle is not the
  thread's alone: the pointer given to \<open>konan::onThreadExit\<close> outlives the handle, and
  the allocator may give the address to another thread. So the test of a
  \<open>RuntimeAssert\<close> on the flag \<open>status\<close> and the assignment to the flag that
  follows it are two actions, and every access through a pointer that is not a handle of the
  heap is an invalid access.
\<close>

datatype pc =
    Idle
  | I_guard
  | I_cas
  | I_handler
  | I_construct
  | I_fail
  | I_memory nat
  | I_worker nat
  | I_alive nat
  | I_console nat
  | I_globals nat
  | I_tl nat
  | I_assert nat
  | I_running nat
  | I_done
  | X_onexit
  | D_assert nat
  | D_mark nat
  | D_restore nat
  | D_alive nat
  | D_tl nat bool
  | D_globals nat
  | D_worker nat
  | D_memory nat int
  | D_destruct nat int
  | D_threaddata int
  | D_clear
  | S_cas
  | S_runtime
  | S_gc nat
  | S_cleaners nat
  | S_cas2 nat
  | S_spin nat
  | S_check nat
  | S_wait nat
  | S_count nat
  | X_exit
  | Exited

datatype api =
    EnsureRuntime
  | DeinitRuntimeIfNeeded
  | ShutdownRuntime
  | SetMemoryLeakChecker bool
  | SetCleanersLeakChecker bool

text \<open>What the scheduler and the environment choose at a step: which entry point an idle
  thread calls, how an allocation ends, what a collaborator returns, that an idle thread
  exits, and which of the callbacks it registered the host calls next.\<close>

datatype label = Call api | Tau | Alloc "nat option" | Ret nat | Exit | Callback nat

datatype halt = Abort_called | Invalid_access

text \<open>\<open>exiting\<close> tells where \<open>deinitRuntime\<close> returns to: into the host's
  thread-exit processing when it was called by \<open>Kotlin_deinitRuntimeCallback\<close>, into
  the entry point otherwise. \<open>callbacks\<close> are the arguments of the callbacks the host
  has still to call on a thread that exits.\<close>

record mstate = state +
  pc :: "tid \<Rightarrow> pc"
  nthreads :: nat
  halted :: "halt option"
  exiting :: "tid \<Rightarrow> bool"
  callbacks :: "tid \<Rightarrow> nat option list"

definition goto :: "tid \<Rightarrow> pc \<Rightarrow> mstate \<Rightarrow> mstate option" where
  "goto t p s = Some (s\<lparr>pc := (pc s)(t := p)\<rparr>)"

definition crash :: "tid \<Rightarrow> string \<Rightarrow> mstate \<Rightarrow> mstate option" where
  "crash t message s =
     Some ((emit t E_abort (emit t (E_consoleErrorf message) s))\<lparr>halted := Some Abort_called\<rparr>)"

definition invalid_access :: "mstate \<Rightarrow> mstate option" where
  "invalid_access s = Some (s\<lparr>halted := Some Invalid_access\<rparr>)"

definition step_init :: "tid \<Rightarrow> label \<Rightarrow> mstate \<Rightarrow> mstate option" where
  "step_init t l s =
     (case pc s t of
        I_guard \<Rightarrow>
          if l = Tau then goto t I_cas (snd (atomicAdd_initializingRuntimesCount t 1 s)) else None
      | I_cas \<Rightarrow>
          if l = Tau then
            (let (lastStatus, s1) =
                   compareAndSwap_globalRuntimeStatus t
                     kGlobalRuntimeUninitialized kGlobalRuntimeRunning s
             in if lastStatus = kGlobalRuntimeShutdown
                then crash t ''Kotlin runtime was shut down. Cannot create new runtimes\<newline>'' s1
                else goto t I_handler s1)
          else None
      | I_handler \<Rightarrow>
          if l = Tau then goto t I_construct (emit t E_SetKonanTerminateHandler s) else None
      | I_construct \<Rightarrow>
          (case l of
             Alloc None \<Rightarrow> goto t I_fail (konanConstructInstance t None s)
           | Alloc (Some result) \<Rightarrow>
               if heap s result \<noteq> None then None
               else
                 let s1 = konanConstructInstance t (Some result) s
                 in if isValidRuntime t s1 then crash t ''No active runtimes allowed'' s1
                    else goto t (I_memory result)
                           (s1\<lparr>runtimeState := (runtimeState s1)(t := Some result)\<rparr>)
           | _ \<Rightarrow> None)
      | I_fail \<Rightarrow>
          if l = Tau then goto t X_onexit (snd (atomicAdd_initializingRuntimesCount t (- 1) s))
          else None
      | I_memory result \<Rightarrow>
          (case l of
             Ret mem \<Rightarrow>
               (let s1 = emit t (E_InitMemory mem) s
                in case heap s1 result of
                     None \<Rightarrow> invalid_access s1
                   | Some r \<Rightarrow>
                       goto t (I_worker result)
                         (s1\<lparr>heap := (heap s1)(result \<mapsto> r\<lparr>memoryState := mem\<rparr>)\<rparr>))
           | _ \<Rightarrow> None)
      | I_worker result \<Rightarrow>
          (case l of
             Ret wrk \<Rightarrow>
               (let s1 = emit t (E_WorkerInit True wrk) s
                in case heap s1 result of
                     None \<Rightarrow> invalid_access s1
                   | Some r \<Rightarrow>
                       goto t (I_alive result)
                         (s1\<lparr>heap := (heap s1)(result \<mapsto> r\<lparr>worker := wrk\<rparr>)\<rparr>))
           | _ \<Rightarrow> None)
      | I_alive result \<Rightarrow>
          if l = Tau then
            (let (n, s1) = atomicAdd_aliveRuntimesCount t 1 s;
                 firstRuntime = (n = 1)
             in goto t (if firstRuntime then I_console result else I_tl result) s1)
          else None
      | I_console result \<Rightarrow>
          if l = Tau then
            (let s1 = emit t E_consoleInit s
             in goto t (I_globals result)
                  (if KONAN_OBJC_INTEROP s1 then emit t E_ObjCExport_initialize s1 else s1))
          else None
      | I_globals result \<Rightarrow>
          if l = Tau then
            (case heap s result of
               None \<Rightarrow> invalid_access s
             | Some r \<Rightarrow>
                 (case InitOrDeinitGlobalVariables t INIT_GLOBALS (memoryState r) s of
                    None \<Rightarrow> None
                  | Some s1 \<Rightarrow> goto t (I_tl result) s1))
          else None
      | I_tl result \<Rightarrow>
          if l = Tau then
            (case heap s result of
               None \<Rightarrow> invalid_access s
             | Some r \<Rightarrow>
                 (case InitOrDeinitGlobalVariables t INIT_THREAD_LOCAL_GLOBALS (memoryState r) s of
                    None \<Rightarrow> None
                  | Some s1 \<Rightarrow> goto t (I_assert result) s1))
          else None
      | I_assert result \<Rightarrow>
          if l = Tau then
            (case heap s result of
               None \<Rightarrow> invalid_access s
             | Some r \<Rightarrow>
                 if status r \<noteq> kUninitialized
                 then crash t ''Runtime must still be in the uninitialized state'' s
                 else goto t (I_running result) s)
          else None
      | I_running result \<Rightarrow>
          if l = Tau then
            (case heap s result of
               None \<Rightarrow> invalid_access s
             | Some r \<Rightarrow>
                 goto t I_done
                   (emit t (E_status_write result kRunning)
                      (s\<lparr>heap := (heap s)(result \<mapsto> r\<lparr>status := kRunning\<rparr>)\<rparr>)))
          else None
      | I_done \<Rightarrow>
          if l = Tau then goto t X_onexit (snd (atomicAdd_initializingRuntimesCount t (- 1) s))
          else None
      | X_onexit \<Rightarrow>
          if l = Tau then goto t Idle (emit t (E_onThreadExit (runtimeState s t)) s) else None
      | _ \<Rightarrow> None)"

definition step_deinit :: "tid \<Rightarrow> label \<Rightarrow> mstate \<Rightarrow> mstate option" where
  "step_deinit t l s =
     (if l \<noteq> Tau then None
      else
        (case pc s t of
           D_assert state \<Rightarrow>
             (case heap s state of
                None \<Rightarrow> invalid_access s
              | Some r \<Rightarrow>
                  if status r \<noteq> kRunning then crash t ''Runtime must be in the running state'' s
                  else goto t (D_mark state) s)
         | D_mark state \<Rightarrow>
             (case heap s state of
                None \<Rightarrow> invalid_access s
              | Some r \<Rightarrow>
                  goto t (D_restore state)
                    (emit t (E_status_write state kDestroying)
                       (s\<lparr>heap := (heap s)(state \<mapsto> r\<lparr>status := kDestroying\<rparr>)\<rparr>)))
         | D_restore state \<Rightarrow>
             (case heap s state of
                None \<Rightarrow> invalid_access s
              | Some r \<Rightarrow> goto t (D_alive state) (emit t (E_RestoreMemory (memoryState r)) s))
         | D_alive state \<Rightarrow>
             (let (n, s1) = atomicAdd_aliveRuntimesCount t (- 1) s;
                  lastRuntime = (n = 0)
              in goto t (D_tl state lastRuntime) s1)
         | D_tl state lastRuntime \<Rightarrow>
             (case heap s state of
                None \<Rightarrow> invalid_access s
              | Some r \<Rightarrow>
                  (case InitOrDeinitGlobalVariables t DEINIT_THREAD_LOCAL_GLOBALS (memoryState r) s of
                     None \<Rightarrow> None
                   | Some s1 \<Rightarrow> goto t (if lastRuntime then D_globals state else D_worker state) s1))
         | D_globals state \<Rightarrow>
             (case heap s state of
                None \<Rightarrow> invalid_access s
              | Some r \<Rightarrow>
                  (case InitOrDeinitGlobalVariables t DEINIT_GLOBALS (memoryState r) s of
                     None \<Rightarrow> None
                   | Some s1 \<Rightarrow> goto t (D_worker state) s1))
         | D_worker state \<Rightarrow>
             (case heap s state of
                None \<Rightarrow> invalid_access s
              | Some r \<Rightarrow>
                  (let workerId = GetWorkerId (worker r)
                   in goto t (D_memory state workerId) (emit t (E_WorkerDeinit (worker r)) s)))
         | D_memory state workerId \<Rightarrow>
             (case heap s state of
                None \<Rightarrow> invalid_access s
              | Some r \<Rightarrow>
                  goto t (D_destruct state workerId) (emit t (E_DeinitMemory (memoryState r)) s))
         | D_destruct state workerId \<Rightarrow>
             goto t (D_threaddata workerId)
               (emit t (E_konanDestructInstance state) (s\<lparr>heap := (heap s)(state := None)\<rparr>))
         | D_threaddata workerId \<Rightarrow>
             goto t (if exiting s t then X_exit else D_clear)
               (emit t (E_WorkerDestroyThreadDataIfNeeded workerId) s)
         | D_clear \<Rightarrow> goto t Idle (s\<lparr>runtimeState := (runtimeState s)(t := None)\<rparr>)
         | _ \<Rightarrow> None))"

definition step_shutdown :: "tid \<Rightarrow> label \<Rightarrow> mstate \<Rightarrow> mstate option" where
  "step_shutdown t l s =
     (if l \<noteq> Tau then None
      else
        (case pc s t of
           S_cas \<Rightarrow>
             (let (lastStatus, s1) =
                    compareAndSwap_globalRuntimeStatus t
                      kGlobalRuntimeRunning kGlobalRuntimeShuttingDown s
              in case lastStatus of
                   kGlobalRuntimeRunning \<Rightarrow> goto t S_runtime s1
                 | kGlobalRuntimeShuttingDown \<Rightarrow>
                     crash t ''Cannot shutdown Kotlin runtime twice\<newline>'' s1
                 | kGlobalRuntimeShutdown \<Rightarrow>
                     crash t ''Cannot shutdown Kotlin runtime twice\<newline>'' s1
                 | kGlobalRuntimeUninitialized \<Rightarrow>
                     crash t ''Kotlin runtime must have been initialized\<newline>'' s1)
         | S_runtime \<Rightarrow>
             (case runtimeState s t of
                None \<Rightarrow> crash t ''Current thread must have Kotlin runtime initialized on it\<newline>'' s
              | Some runtime \<Rightarrow> goto t (S_gc runtime) s)
         | S_gc runtime \<Rightarrow>
             if Kotlin_cleanersLeakCheckerEnabled s
             then (case heap s runtime of
                     None \<Rightarrow> invalid_access s
                   | Some r \<Rightarrow> goto t (S_cleaners runtime) (emit t (E_PerformFullGC (memoryState r)) s))
             else goto t (S_cleaners runtime) s
         | S_cleaners runtime \<Rightarrow>
             goto t (S_cas2 runtime)
               (emit t (E_ShutdownCleaners (Kotlin_cleanersLeakCheckerEnabled s)) s)
         | S_cas2 runtime \<Rightarrow>
             (let (lastStatus, s1) =
                    compareAndSwap_globalRuntimeStatus t
                      kGlobalRuntimeShuttingDown kGlobalRuntimeShutdown s
              in if lastStatus \<noteq> kGlobalRuntimeShuttingDown
                 then crash t ''Must be in ShuttingDown state'' s1
                 else goto t (S_spin runtime) s1)
         | S_spin runtime \<Rightarrow>
             if initializingRuntimesCount s > 0 then Some s else goto t (S_check runtime) s
         | S_check runtime \<Rightarrow>
             if Kotlin_memoryLeakCheckerEnabled s \<or> Kotlin_memoryLeakCheckerEnabled s
             then goto t (S_wait runtime) s
             else goto t (D_assert runtime) s
         | S_wait runtime \<Rightarrow> goto t (S_count runtime) (emit t E_WaitNativeWorkersTermination s)
         | S_count runtime \<Rightarrow>
             (let otherRuntimesCount = aliveRuntimesCount s - 1
              in if \<not> otherRuntimesCount \<ge> 0 then crash t ''Cannot be negative'' s
                 else if otherRuntimesCount > 0
                 then Some ((emit t E_abort
                              (emit t (E_consoleErrorf_int
                                 ''Cannot run checkers when there are %d alive runtimes at the shutdown''
                                 otherRuntimesCount) s))\<lparr>halted := Some Abort_called\<rparr>)
                 else goto t (D_assert runtime) s)
         | _ \<Rightarrow> None))"

text \<open>An idle thread calls an entry point. The tests on the thread-local
  \<open>runtimeState\<close> that open \<open>Kotlin_initRuntimeIfNeeded\<close> and
  \<open>Kotlin_deinitRuntimeIfNeeded\<close> are part of the call.\<close>

definition step_call :: "tid \<Rightarrow> api \<Rightarrow> mstate \<Rightarrow> mstate option" where
  "step_call t c s =
     (case c of
        EnsureRuntime \<Rightarrow> if \<not> isValidRuntime t s then goto t I_guard s else Some s
      | DeinitRuntimeIfNeeded \<Rightarrow>
          (case runtimeState s t of
             Some state \<Rightarrow> goto t (D_assert state) s
           | None \<Rightarrow> Some s)
      | ShutdownRuntime \<Rightarrow> goto t S_cas s
      | SetMemoryLeakChecker v \<Rightarrow> Some (Konan_Platform_setMemoryLeakChecker v s)
      | SetCleanersLeakChecker v \<Rightarrow> Some (Konan_Platform_setCleanersLeakChecker v s))"

definition in_init :: "pc \<Rightarrow> bool" where
  "in_init p =
     (case p of
        I_guard \<Rightarrow> True | I_cas \<Rightarrow> True | I_handler \<Rightarrow> True | I_construct \<Rightarrow> True
      | I_fail \<Rightarrow> True | I_memory _ \<Rightarrow> True | I_worker _ \<Rightarrow> True | I_alive _ \<Rightarrow> True
      | I_console _ \<Rightarrow> True | I_globals _ \<Rightarrow> True | I_tl _ \<Rightarrow> True | I_assert _ \<Rightarrow> True
      | I_running _ \<Rightarrow> True | I_done \<Rightarrow> True | X_onexit \<Rightarrow> True | _ \<Rightarrow> False)"

definition in_deinit :: "pc \<Rightarrow> bool" where
  "in_deinit p =
     (case p of
        D_assert _ \<Rightarrow> True | D_mark _ \<Rightarrow> True | D_restore _ \<Rightarrow> True | D_alive _ \<Rightarrow> True
      | D_tl _ _ \<Rightarrow> True | D_globals _ \<Rightarrow> True | D_worker _ \<Rightarrow> True | D_memory _ _ \<Rightarrow> True
      | D_destruct _ _ \<Rightarrow> True | D_threaddata _ \<Rightarrow> True | D_clear \<Rightarrow> True | _ \<Rightarrow> False)"

text \<open>
  Modelled from the spec: \<open>konan::onThreadExit\<close> of Porting.h (not among the sources)
  is the "host thread-exit registration \<open>onThisThreadExit(callback, argument)\<close>": the
  host keeps the callback with its argument, and when the thread exits it calls each callback
  the thread registered, once, with that argument. \<open>exit_arguments t tr\<close> are the
  arguments thread \<open>t\<close> registered in the trace \<open>tr\<close>, in the order of
  registration. In which order the host calls them is the host's choice: the label
  \<open>Callback k\<close> takes the \<open>k\<close>-th of those still to be called. The callback is
  always \<open>Kotlin_deinitRuntimeCallback\<close>, which casts its argument to a
  \<open>RuntimeState*\<close> and calls \<open>deinitRuntime\<close> on it; with the null pointer the
  first access of \<open>deinitRuntime\<close> is invalid.
\<close>

definition exit_arguments :: "tid \<Rightarrow> (tid \<times> event) list \<Rightarrow> nat option list" where
  "exit_arguments t tr =
     concat (map (\<lambda>x. case x of
                         (u, E_onThreadExit argument) \<Rightarrow> if u = t then [argument] else []
                       | _ \<Rightarrow> []) tr)"

definition step_exit :: "tid \<Rightarrow> label \<Rightarrow> mstate \<Rightarrow> mstate option" where
  "step_exit t l s =
     (case l of
        Callback k \<Rightarrow>
          if k < length (callbacks s t)
          then (let s1 = s\<lparr>callbacks := (callbacks s)(t :=
                             take k (callbacks s t) @ drop (Suc k) (callbacks s t))\<rparr>
                in case callbacks s t ! k of
                     None \<Rightarrow> invalid_access s1
                   | Some state \<Rightarrow> goto t (D_assert state) s1)
          else None
      | Tau \<Rightarrow> if callbacks s t = [] then goto t Exited s else None
      | _ \<Rightarrow> None)"

text \<open>
  The executions considered are made of calls of \<open>Kotlin_initRuntimeIfNeeded\<close>,
  \<open>Kotlin_deinitRuntimeIfNeeded\<close>, \<open>Kotlin_shutdownRuntime\<close> and the two setters of
  the leak-checker flags, by any thread at any time it is not inside a call, and of threads
  that exit when they are not inside a call: the host then runs the callbacks the thread
  registered, and the thread is gone.
\<close>

text \<open>One step of thread \<open>t\<close>. \<open>None\<close>: the step cannot be taken (the process has
  ended, the thread does not exist, the label does not fit the program point, or the
  initializer chain is never left).\<close>

definition step :: "tid \<Rightarrow> label \<Rightarrow> mstate \<Rightarrow> mstate option" where
  "step t l s =
     (if halted s \<noteq> None \<or> \<not> t < nthreads s then None
      else if pc s t = Idle then
        (case l of
           Call c \<Rightarrow> step_call t c s
         | Exit \<Rightarrow>
             goto t X_exit
               (s\<lparr>exiting := (exiting s)(t := True),
                  callbacks := (callbacks s)(t := exit_arguments t (trace s))\<rparr>)
         | _ \<Rightarrow> None)
      else if pc s t = X_exit then step_exit t l s
      else if pc s t = Exited then None
      else if in_init (pc s t) then step_init t l s
      else if in_deinit (pc s t) then step_deinit t l s
      else step_shutdown t l s)"

fun run :: "(tid \<times> label) list \<Rightarrow> mstate \<Rightarrow> mstate option" where
  "run [] s = Some s"
| "run ((t, l) # sched) s = (case step t l s of None \<Rightarrow> None | Some s' \<Rightarrow> run sched s')"

text \<open>The process after static initialization: \<open>n\<close> threads, none inside a call, no
  runtime, the registry and the flags as the modules' static initializers left them.\<close>

definition startup ::
  "nat \<Rightarrow> (nat \<Rightarrow> InitNode) \<Rightarrow> nat option \<Rightarrow> nat option \<Rightarrow> bool \<Rightarrow> bool \<Rightarrow> bool \<Rightarrow> mstate" where
  "startup n nds head tail checkLeaks checkLeakedCleaners objc =
     \<lparr>nodes = nds, initHeadNode = head, initTailNode = tail,
      g_checkLeaks = checkLeaks, g_checkLeakedCleaners = checkLeakedCleaners,
      runtimeState = (\<lambda>t. None), heap = (\<lambda>p. None),
      aliveRuntimesCount = 0, globalRuntimeStatus = kGlobalRuntimeUninitialized,
      initializingRuntimesCount = 0, KONAN_OBJC_INTEROP = objc, trace = [],
      pc = (\<lambda>t. Idle), nthreads = n, halted = None,
      exiting = (\<lambda>t. False), callbacks = (\<lambda>t. [])\<rparr>"

section \<open>What the properties are stated with\<close>

text \<open>\<open>chain nds p ps\<close>: following \<open>next\<close> from \<open>p\<close> visits exactly the nodes
  \<open>ps\<close>, in this order, and then reaches the null pointer.\<close>

fun chain :: "(nat \<Rightarrow> InitNode) \<Rightarrow> nat option \<Rightarrow> nat list \<Rightarrow> bool" where
  "chain nds p [] = (p = None)"
| "chain nds p (a # as) = (p = Some a \<and> chain nds (next_ptr (nds a)) as)"

text \<open>The modules' static initializers, calling \<open>AppendToInitializersTail\<close> one after
  the other on the nodes \<open>ns\<close>.\<close>

fun register_all :: "nat list \<Rightarrow> 'a state_scheme \<Rightarrow> 'a state_scheme fault + 'a state_scheme" where
  "register_all [] s = Inr s"
| "register_all (n # ns) s =
     (case AppendToInitializersTail (Some n) s of
        Inl f \<Rightarrow> Inl f
      | Inr s' \<Rightarrow> register_all ns s')"

definition registered :: "'a state_scheme \<Rightarrow> nat list \<Rightarrow> bool" where
  "registered s ps =
     (chain (nodes s) (initHeadNode s) ps \<and> distinct ps \<and>
      initTailNode s = (if ps = [] then None else Some (last ps)))"

text \<open>Two processes to evaluate the functions on. \<open>registry0\<close>: nothing registered, no
  runtime yet; node \<open>p\<close> holds the callback \<open>p\<close>. \<open>two_runtimes\<close>: the nodes 4 and 2
  are registered, threads 0 and 1 have the running handles 10 and 11.\<close>

definition registry0 :: state where
  "registry0 =
     \<lparr>nodes = (\<lambda>p. \<lparr>init = p, next_ptr = None\<rparr>), initHeadNode = None, initTailNode = None,
      g_checkLeaks = False, g_checkLeakedCleaners = False,
      runtimeState = (\<lambda>t. None), heap = (\<lambda>p. None),
      aliveRuntimesCount = 0, globalRuntimeStatus = kGlobalRuntimeUninitialized,
      initializingRuntimesCount = 0, KONAN_OBJC_INTEROP = False, trace = []\<rparr>"

definition two_runtimes :: "bool \<Rightarrow> bool \<Rightarrow> state" where
  "two_runtimes checkLeaks checkLeakedCleaners =
     \<lparr>nodes = (\<lambda>p. \<lparr>init = p, next_ptr = (if p = 4 then Some 2 else None)\<rparr>),
      initHeadNode = Some 4, initTailNode = Some 2,
      g_checkLeaks = checkLeaks, g_checkLeakedCleaners = checkLeakedCleaners,
      runtimeState = (\<lambda>t. if t = 0 then Some 10 else if t = 1 then Some 11 else None),
      heap = (\<lambda>p. if p = 10 then Some \<lparr>memoryState = 5, worker = 6, status = kRunning\<rparr>
                  else if p = 11 then Some \<lparr>memoryState = 7, worker = 8, status = kRunning\<rparr>
                  else None),
      aliveRuntimesCount = 2, globalRuntimeStatus = kGlobalRuntimeRunning,
      initializingRuntimesCount = 0, KONAN_OBJC_INTEROP = False, trace = []\<rparr>"

section \<open>Counting what happened in an execution\<close>

text \<open>\<open>tally f tr\<close> adds up \<open>f\<close> over the trace \<open>tr\<close>; with an \<open>f\<close> that is
  1 on the events of one kind and 0 elsewhere it counts them.\<close>

definition tally :: "('a \<Rightarrow> int) \<Rightarrow> 'a list \<Rightarrow> int" where
  "tally f tr = sum_list (map f tr)"

text \<open>
  \<open>alive_delta t\<close> is what an event of thread \<open>t\<close> adds to
  \<open>aliveRuntimesCount\<close>, so its tally is the number of increments of \<open>t\<close> that no
  decrement of \<open>t\<close> has matched yet. \<open>counted p tls\<close> says the same from where the
  thread stands: it is 1 when the thread, at program point \<open>p\<close> with the thread-local
  \<open>runtimeState\<close> being \<open>tls\<close>, has a handle that is past the increment of
  \<open>initRuntime\<close> and not past the decrement of \<open>deinitRuntime\<close>, and 0 otherwise.
  \<open>tls_ok\<close> is what the program point tells about the thread-local, as long as
  \<open>deinitRuntime\<close> is only called by the entry points. A thread is \<open>staying\<close>
  when it has not begun to exit; a schedule is \<open>exit_free\<close> when no thread exits in
  it. \<open>tls_unset\<close>: up to the allocation in \<open>initRuntime\<close> the thread-local is
  null.
\<close>

definition alive_delta :: "tid \<Rightarrow> tid \<times> event \<Rightarrow> int" where
  "alive_delta t x =
     (case x of
        (u, E_atomicAdd_aliveRuntimesCount d v) \<Rightarrow> if u = t then d else 0
      | _ \<Rightarrow> 0)"

definition counted :: "pc \<Rightarrow> nat option \<Rightarrow> int" where
  "counted p tls =
     (case p of
        Idle \<Rightarrow> if tls = None then 0 else 1
      | I_console _ \<Rightarrow> 1 | I_globals _ \<Rightarrow> 1 | I_tl _ \<Rightarrow> 1 | I_assert _ \<Rightarrow> 1
      | I_running _ \<Rightarrow> 1 | I_done \<Rightarrow> 1
      | X_onexit \<Rightarrow> if tls = None then 0 else 1
      | D_assert _ \<Rightarrow> 1 | D_mark _ \<Rightarrow> 1 | D_restore _ \<Rightarrow> 1 | D_alive _ \<Rightarrow> 1
      | S_cas \<Rightarrow> if tls = None then 0 else 1
      | S_runtime \<Rightarrow> if tls = None then 0 else 1
      | S_gc _ \<Rightarrow> 1 | S_cleaners _ \<Rightarrow> 1 | S_cas2 _ \<Rightarrow> 1 | S_spin _ \<Rightarrow> 1 | S_check _ \<Rightarrow> 1
      | S_wait _ \<Rightarrow> 1 | S_count _ \<Rightarrow> 1
      | _ \<Rightarrow> 0)"

definition tls_ok :: "pc \<Rightarrow> nat option \<Rightarrow> bool" where
  "tls_ok p tls =
     (case p of
        I_guard \<Rightarrow> tls = None | I_cas \<Rightarrow> tls = None | I_handler \<Rightarrow> tls = None
      | I_construct \<Rightarrow> tls = None | I_fail \<Rightarrow> tls = None
      | I_memory r \<Rightarrow> tls = Some r | I_worker r \<Rightarrow> tls = Some r | I_alive r \<Rightarrow> tls = Some r
      | I_console r \<Rightarrow> tls = Some r | I_globals r \<Rightarrow> tls = Some r | I_tl r \<Rightarrow> tls = Some r
      | I_assert r \<Rightarrow> tls = Some r | I_running r \<Rightarrow> tls = Some r | I_done \<Rightarrow> tls \<noteq> None
      | D_assert h \<Rightarrow> tls = Some h
      | D_mark h \<Rightarrow> tls = Some h | D_restore h \<Rightarrow> tls = Some h | D_alive h \<Rightarrow> tls = Some h
      | D_tl h _ \<Rightarrow> tls = Some h | D_globals h \<Rightarrow> tls = Some h | D_worker h \<Rightarrow> tls = Some h
      | D_memory h _ \<Rightarrow> tls = Some h | D_destruct h _ \<Rightarrow> tls = Some h
      | S_gc h \<Rightarrow> tls = Some h | S_cleaners h \<Rightarrow> tls = Some h | S_cas2 h \<Rightarrow> tls = Some h
      | S_spin h \<Rightarrow> tls = Some h | S_check h \<Rightarrow> tls = Some h | S_wait h \<Rightarrow> tls = Some h
      | S_count h \<Rightarrow> tls = Some h
      | _ \<Rightarrow> True)"

definition staying :: "mstate \<Rightarrow> tid \<Rightarrow> bool" where
  "staying s t = (\<not> exiting s t \<and> pc s t \<noteq> X_exit \<and> pc s t \<noteq> Exited)"

definition exit_free :: "(tid \<times> label) list \<Rightarrow> bool" where
  "exit_free sched = (\<forall>x\<in>set sched. snd x \<noteq> Exit)"

definition tls_unset :: "pc \<Rightarrow> nat option \<Rightarrow> bool" where
  "tls_unset p tls =
     (p = I_guard \<or> p = I_cas \<or> p = I_handler \<or> p = I_construct \<longrightarrow> tls = None)"

definition alive_inv :: "mstate \<Rightarrow> bool" where
  "alive_inv s =
     ((\<forall>t. t < nthreads s \<longrightarrow> staying s t) \<and>
      (\<forall>t. t < nthreads s \<longrightarrow> tls_ok (pc s t) (runtimeState s t)) \<and>
      (\<forall>t. tally (alive_delta t) (trace s) =
            (if t < nthreads s then counted (pc s t) (runtimeState s t) else 0)) \<and>
      aliveRuntimesCount s = (\<Sum>t<nthreads s. counted (pc s t) (runtimeState s t)))"

text \<open>
  \<open>phase_run ph\<close> counts the calls of \<open>InitOrDeinitGlobalVariables\<close> with the tag
  \<open>ph\<close>; \<open>alive_add d\<close> the atomic adds of \<open>d\<close> to \<open>aliveRuntimesCount\<close>,
  \<open>alive_add_reaching d v\<close> those that returned \<open>v\<close>; \<open>construct_event\<close> the
  handles constructed and \<open>destruct_event\<close> the handles destroyed.
  \<open>pending_phase ph p\<close> is 1 when a thread at \<open>p\<close> has done the atomic add that
  makes the phase \<open>ph\<close> due and has not run the phase yet; \<open>pending_created\<close> is 1
  between the construction of a handle and its \<open>INIT_THREAD_LOCAL_GLOBALS\<close> phase,
  \<open>pending_destroyed\<close> between the \<open>DEINIT_THREAD_LOCAL_GLOBALS\<close> phase and the
  destruction of the handle.
\<close>

definition phase_run :: "int \<Rightarrow> tid \<times> event \<Rightarrow> int" where
  "phase_run ph x = (case x of (u, E_InitOrDeinitGlobalVariables i m) \<Rightarrow> if i = ph then 1 else 0 | _ \<Rightarrow> 0)"

definition alive_add :: "int \<Rightarrow> tid \<times> event \<Rightarrow> int" where
  "alive_add d x = (case x of (u, E_atomicAdd_aliveRuntimesCount d' v) \<Rightarrow> if d' = d then 1 else 0 | _ \<Rightarrow> 0)"

definition alive_add_reaching :: "int \<Rightarrow> int \<Rightarrow> tid \<times> event \<Rightarrow> int" where
  "alive_add_reaching d v x =
     (case x of (u, E_atomicAdd_aliveRuntimesCount d' v') \<Rightarrow> if d' = d \<and> v' = v then 1 else 0 | _ \<Rightarrow> 0)"

definition pending_phase :: "int \<Rightarrow> pc \<Rightarrow> int" where
  "pending_phase ph p =
     (if ph = INIT_GLOBALS then (case p of I_console _ \<Rightarrow> 1 | I_globals _ \<Rightarrow> 1 | _ \<Rightarrow> 0)
      else if ph = INIT_THREAD_LOCAL_GLOBALS
      then (case p of I_console _ \<Rightarrow> 1 | I_globals _ \<Rightarrow> 1 | I_tl _ \<Rightarrow> 1 | _ \<Rightarrow> 0)
      else if ph = DEINIT_THREAD_LOCAL_GLOBALS then (case p of D_tl _ _ \<Rightarrow> 1 | _ \<Rightarrow> 0)
      else if ph = DEINIT_GLOBALS
      then (case p of D_tl _ lastRuntime \<Rightarrow> if lastRuntime then 1 else 0 | D_globals _ \<Rightarrow> 1 | _ \<Rightarrow> 0)
      else 0)"

definition construct_event :: "tid \<times> event \<Rightarrow> int" where
  "construct_event x = (case x of (u, E_konanConstructInstance (Some p)) \<Rightarrow> 1 | _ \<Rightarrow> 0)"

definition destruct_event :: "tid \<times> event \<Rightarrow> int" where
  "destruct_event x = (case x of (u, E_konanDestructInstance p) \<Rightarrow> 1 | _ \<Rightarrow> 0)"

definition pending_created :: "pc \<Rightarrow> int" where
  "pending_created p =
     (case p of I_memory _ \<Rightarrow> 1 | I_worker _ \<Rightarrow> 1 | I_alive _ \<Rightarrow> 1 | I_console _ \<Rightarrow> 1
      | I_globals _ \<Rightarrow> 1 | I_tl _ \<Rightarrow> 1 | _ \<Rightarrow> 0)"

definition pending_destroyed :: "pc \<Rightarrow> int" where
  "pending_destroyed p =
     (case p of D_globals _ \<Rightarrow> 1 | D_worker _ \<Rightarrow> 1 | D_memory _ _ \<Rightarrow> 1 | D_destruct _ _ \<Rightarrow> 1
      | _ \<Rightarrow> 0)"

definition ledger :: "(tid \<times> event \<Rightarrow> int) \<Rightarrow> (pc \<Rightarrow> int) \<Rightarrow> (tid \<times> event \<Rightarrow> int) \<Rightarrow> mstate \<Rightarrow> bool" where
  "ledger done pd due s =
     (tally done (trace s) + (\<Sum>t<nthreads s. pd (pc s t)) = tally due (trace s))"

text \<open>\<open>construct_by t\<close> counts the calls of \<open>konanConstructInstance\<close> by thread
  \<open>t\<close>. A thread is \<open>past_tryStart\<close> when it stands between the compare-and-swap of
  \<open>initRuntime\<close> and the allocation.\<close>

definition construct_by :: "tid \<Rightarrow> tid \<times> event \<Rightarrow> int" where
  "construct_by t x = (case x of (u, E_konanConstructInstance a) \<Rightarrow> if u = t then 1 else 0 | _ \<Rightarrow> 0)"

definition past_tryStart :: "pc \<Rightarrow> bool" where
  "past_tryStart p = (p = I_handler \<or> p = I_construct)"

text \<open>
  \<open>owned p tls\<close> is the handle a thread at \<open>p\<close> is working with, and the lifecycle
  flag that handle has there. \<open>holds s t\<close>: the handle of thread \<open>t\<close> is an object of
  the heap and has that flag. A thread is \<open>in_shutdown_pre\<close> between the two
  compare-and-swaps of \<open>Kotlin_shutdownRuntime\<close>. \<open>assertion_failed\<close> picks the
  messages of the \<open>RuntimeAssert\<close>s and of the \<open>RuntimeCheck\<close>.
\<close>

definition owned :: "pc \<Rightarrow> nat option \<Rightarrow> (nat \<times> RuntimeStatus) option" where
  "owned p tls =
     (case p of
        Idle \<Rightarrow> map_option (\<lambda>h. (h, kRunning)) tls
      | I_memory r \<Rightarrow> Some (r, kUninitialized) | I_worker r \<Rightarrow> Some (r, kUninitialized)
      | I_alive r \<Rightarrow> Some (r, kUninitialized) | I_console r \<Rightarrow> Some (r, kUninitialized)
      | I_globals r \<Rightarrow> Some (r, kUninitialized) | I_tl r \<Rightarrow> Some (r, kUninitialized)
      | I_assert r \<Rightarrow> Some (r, kUninitialized) | I_running r \<Rightarrow> Some (r, kUninitialized)
      | I_done \<Rightarrow> map_option (\<lambda>h. (h, kRunning)) tls
      | X_onexit \<Rightarrow> map_option (\<lambda>h. (h, kRunning)) tls
      | D_assert h \<Rightarrow> Some (h, kRunning) | D_mark h \<Rightarrow> Some (h, kRunning)
      | D_restore h \<Rightarrow> Some (h, kDestroying) | D_alive h \<Rightarrow> Some (h, kDestroying)
      | D_tl h _ \<Rightarrow> Some (h, kDestroying) | D_globals h \<Rightarrow> Some (h, kDestroying)
      | D_worker h \<Rightarrow> Some (h, kDestroying) | D_memory h _ \<Rightarrow> Some (h, kDestroying)
      | D_destruct h _ \<Rightarrow> Some (h, kDestroying)
      | S_cas \<Rightarrow> map_option (\<lambda>h. (h, kRunning)) tls
      | S_runtime \<Rightarrow> map_option (\<lambda>h. (h, kRunning)) tls
      | S_gc h \<Rightarrow> Some (h, kRunning) | S_cleaners h \<Rightarrow> Some (h, kRunning)
      | S_cas2 h \<Rightarrow> Some (h, kRunning) | S_spin h \<Rightarrow> Some (h, kRunning)
      | S_check h \<Rightarrow> Some (h, kRunning) | S_wait h \<Rightarrow> Some (h, kRunning)
      | S_count h \<Rightarrow> Some (h, kRunning)
      | _ \<Rightarrow> None)"

definition holds :: "mstate \<Rightarrow> tid \<Rightarrow> bool" where
  "holds s t =
     (case owned (pc s t) (runtimeState s t) of
        None \<Rightarrow> True
      | Some (h, st) \<Rightarrow> (case heap s h of None \<Rightarrow> False | Some r \<Rightarrow> status r = st))"

definition handle_of :: "mstate \<Rightarrow> tid \<Rightarrow> nat option" where
  "handle_of s t = map_option fst (owned (pc s t) (runtimeState s t))"

definition in_shutdown_pre :: "pc \<Rightarrow> bool" where
  "in_shutdown_pre p =
     (case p of S_runtime \<Rightarrow> True | S_gc _ \<Rightarrow> True | S_cleaners _ \<Rightarrow> True | S_cas2 _ \<Rightarrow> True
      | _ \<Rightarrow> False)"

definition assertion_messages :: "string list" where
  "assertion_messages =
     [''No active runtimes allowed'', ''Runtime must still be in the uninitialized state'',
      ''Runtime must be in the running state'', ''Must be in ShuttingDown state'',
      ''Cannot be negative'']"

definition assertion_failed :: "tid \<times> event \<Rightarrow> bool" where
  "assertion_failed x =
     (case x of (u, E_consoleErrorf m) \<Rightarrow> m \<in> set assertion_messages | _ \<Rightarrow> False)"

definition sane :: "mstate \<Rightarrow> bool" where
  "sane s =
     (alive_inv s \<and>
      (\<forall>t. t < nthreads s \<longrightarrow> holds s t) \<and>
      (\<forall>t u q. t < nthreads s \<and> u < nthreads s \<and> t \<noteq> u \<and> handle_of s t = Some q
                 \<longrightarrow> handle_of s u \<noteq> Some q) \<and>
      (\<forall>t. t < nthreads s \<and> in_shutdown_pre (pc s t)
             \<longrightarrow> globalRuntimeStatus s = kGlobalRuntimeShuttingDown) \<and>
      (\<forall>t u. t < nthreads s \<and> u < nthreads s \<and> in_shutdown_pre (pc s t) \<and>
               in_shutdown_pre (pc s u) \<longrightarrow> t = u) \<and>
      halted s \<noteq> Some Invalid_access \<and>
      (\<forall>x. x \<in> set (trace s) \<longrightarrow> \<not> assertion_failed x))"

text \<open>
  Schedules to evaluate the threads on: a thread running \<open>Kotlin_initRuntimeIfNeeded\<close>
  to its end as the first runtime of the process and as a later one,
  \<open>Kotlin_deinitRuntimeIfNeeded\<close> as the last runtime and as one of several,
  \<open>Kotlin_shutdownRuntime\<close> as the last runtime with the memory leak checker off,
  \<open>Kotlin_initRuntimeIfNeeded\<close> with a failing allocation, and
  \<open>Kotlin_shutdownRuntime\<close> up to the check of the alive count, and
  \<open>Kotlin_shutdownRuntime\<close> to its end with another runtime alive and the memory leak
  checker off; a thread that exits, the host calling the callback it registered first, to the
  end of that callback and of the exit, as the last runtime. \<open>start2\<close> is a process of
  two threads with the nodes 4 and 2 registered.
\<close>

definition ensure_first :: "tid \<Rightarrow> nat \<Rightarrow> nat \<Rightarrow> nat \<Rightarrow> (tid \<times> label) list" where
  "ensure_first t p m w =
     [(t, Call EnsureRuntime), (t, Tau), (t, Tau), (t, Tau), (t, Alloc (Some p)), (t, Ret m),
      (t, Ret w), (t, Tau), (t, Tau), (t, Tau), (t, Tau), (t, Tau), (t, Tau), (t, Tau),
      (t, Tau)]"

definition ensure_later :: "tid \<Rightarrow> nat \<Rightarrow> nat \<Rightarrow> nat \<Rightarrow> (tid \<times> label) list" where
  "ensure_later t p m w =
     [(t, Call EnsureRuntime), (t, Tau), (t, Tau), (t, Tau), (t, Alloc (Some p)), (t, Ret m),
      (t, Ret w), (t, Tau), (t, Tau), (t, Tau), (t, Tau), (t, Tau), (t, Tau)]"

definition teardown_last :: "tid \<Rightarrow> (tid \<times> label) list" where
  "teardown_last t =
     [(t, Call DeinitRuntimeIfNeeded), (t, Tau), (t, Tau), (t, Tau), (t, Tau), (t, Tau), (t, Tau),
      (t, Tau), (t, Tau), (t, Tau), (t, Tau), (t, Tau)]"

definition teardown_other :: "tid \<Rightarrow> (tid \<times> label) list" where
  "teardown_other t =
     [(t, Call DeinitRuntimeIfNeeded), (t, Tau), (t, Tau), (t, Tau), (t, Tau), (t, Tau), (t, Tau),
      (t, Tau), (t, Tau), (t, Tau), (t, Tau)]"

definition shutdown_alone :: "tid \<Rightarrow> (tid \<times> label) list" where
  "shutdown_alone t =
     [(t, Call ShutdownRuntime), (t, Tau), (t, Tau), (t, Tau), (t, Tau), (t, Tau), (t, Tau),
      (t, Tau), (t, Tau), (t, Tau), (t, Tau), (t, Tau), (t, Tau), (t, Tau), (t, Tau), (t, Tau),
      (t, Tau), (t, Tau), (t, Tau)]"

definition ensure_failing :: "tid \<Rightarrow> (tid \<times> label) list" where
  "ensure_failing t =
     [(t, Call EnsureRuntime), (t, Tau), (t, Tau), (t, Tau), (t, Alloc None), (t, Tau), (t, Tau)]"

definition shutdown_checked :: "tid \<Rightarrow> (tid \<times> label) list" where
  "shutdown_checked t =
     [(t, Call ShutdownRuntime), (t, Tau), (t, Tau), (t, Tau), (t, Tau), (t, Tau), (t, Tau),
      (t, Tau), (t, Tau), (t, Tau)]"

definition shutdown_other :: "tid \<Rightarrow> (tid \<times> label) list" where
  "shutdown_other t =
     [(t, Call ShutdownRuntime), (t, Tau), (t, Tau), (t, Tau), (t, Tau), (t, Tau), (t, Tau),
      (t, Tau), (t, Tau), (t, Tau), (t, Tau), (t, Tau), (t, Tau), (t, Tau), (t, Tau), (t, Tau),
      (t, Tau), (t, Tau)]"

definition thread_exit_last :: "tid \<Rightarrow> (tid \<times> label) list" where
  "thread_exit_last t =
     [(t, Exit), (t, Callback 0), (t, Tau), (t, Tau), (t, Tau), (t, Tau), (t, Tau), (t, Tau),
      (t, Tau), (t, Tau), (t, Tau), (t, Tau), (t, Tau)]"

definition start2 :: mstate where
  "start2 = startup 2 (\<lambda>p. \<lparr>init = p, next_ptr = (if p = 4 then Some 2 else None)\<rparr>) (Some 4) (Some 2) False True False"

section \<open>Basic facts\<close>

lemma emit_trace: "trace (emit t e s) = trace s @ [(t, e)]"
  by (simp add: emit_def)

lemma emit_fields [simp]:
  "nodes (emit t e s) = nodes s" "initHeadNode (emit t e s) = initHeadNode s"
  "initTailNode (emit t e s) = initTailNode s"
  by (simp_all add: emit_def)

lemma loop_chain:
  "chain (nodes s) p ps \<Longrightarrow>
   InitOrDeinitGlobalVariables_loop t i m p s =
     Some (s\<lparr>trace := trace s @ map (\<lambda>a. (t, E_Initializer (init (nodes s a)) i m)) ps\<rparr>)"
proof (induction ps arbitrary: p s)
  case Nil
  then show ?case by (subst InitOrDeinitGlobalVariables_loop.simps) simp
next
  case (Cons a as)
  from Cons.prems have p: "p = Some a" and rest: "chain (nodes s) (next_ptr (nodes s a)) as"
    by simp_all
  let ?s1 = "emit t (E_Initializer (init (nodes s a)) i m) s"
  from rest have "chain (nodes ?s1) (next_ptr (nodes s a)) as" by simp
  from Cons.IH [OF this] show ?case
    by (subst InitOrDeinitGlobalVariables_loop.simps) (simp add: p emit_def)
qed

lemma chain_snoc:
  "chain nds p ps \<Longrightarrow> ps \<noteq> [] \<Longrightarrow> distinct ps \<Longrightarrow> n \<notin> set ps \<Longrightarrow> next_ptr (nds n) = None \<Longrightarrow>
   chain (nds(last ps := (nds (last ps))\<lparr>next_ptr := Some n\<rparr>)) p (ps @ [n])"
proof (induction ps arbitrary: p)
  case Nil
  then show ?case by simp
next
  case (Cons a as)
  show ?case
  proof (cases "as = []")
    case True
    with Cons.prems show ?thesis by auto
  next
    case False
    with Cons.prems have "last as \<noteq> a" by auto
    with Cons False show ?thesis by auto
  qed
qed

lemma registered_append:
  assumes "registered s ps" "n \<notin> set ps" "next_ptr (nodes s n) = None"
  shows "\<exists>s'. AppendToInitializersTail (Some n) s = Inr s' \<and> registered s' (ps @ [n]) \<and>
           (\<forall>a. init (nodes s' a) = init (nodes s a)) \<and>
           (\<forall>a. a \<notin> set ps \<longrightarrow> nodes s' a = nodes s a) \<and> trace s' = trace s"
proof (cases "ps = []")
  case True
  with assms show ?thesis
    by (auto simp: registered_def AppendToInitializersTail_def)
next
  case False
  with assms have hd: "initHeadNode s \<noteq> None" and tl: "initTailNode s = Some (last ps)"
    by (cases ps; auto simp: registered_def)+
  from assms False
  have "chain ((nodes s)(last ps := (nodes s (last ps))\<lparr>next_ptr := Some n\<rparr>)) (initHeadNode s) (ps @ [n])"
    by (intro chain_snoc) (auto simp: registered_def)
  with assms False hd tl show ?thesis
    by (auto simp: registered_def AppendToInitializersTail_def)
qed

lemma register_all_registered:
  "registered s ps \<Longrightarrow> distinct ns \<Longrightarrow> set ns \<inter> set ps = {} \<Longrightarrow>
   \<forall>n\<in>set ns. next_ptr (nodes s n) = None \<Longrightarrow>
   \<exists>s'. register_all ns s = Inr s' \<and> registered s' (ps @ ns) \<and>
        (\<forall>a. init (nodes s' a) = init (nodes s a)) \<and> trace s' = trace s"
proof (induction ns arbitrary: s ps)
  case Nil
  then show ?case by simp
next
  case (Cons n ns)
  from Cons.prems have fresh: "n \<notin> set ps" "next_ptr (nodes s n) = None" by auto
  from registered_append [OF Cons.prems(1) fresh]
  obtain s1 where s1: "AppendToInitializersTail (Some n) s = Inr s1"
      "registered s1 (ps @ [n])" "\<forall>a. init (nodes s1 a) = init (nodes s a)"
      "\<forall>a. a \<notin> set ps \<longrightarrow> nodes s1 a = nodes s a" "trace s1 = trace s"
    by blast
  from Cons.prems have "distinct ns" "set ns \<inter> set (ps @ [n]) = {}" by auto
  moreover from Cons.prems s1(4) have "\<forall>m\<in>set ns. next_ptr (nodes s1 m) = None" by auto
  ultimately obtain s' where s': "register_all ns s1 = Inr s'" "registered s' ((ps @ [n]) @ ns)"
      "\<forall>a. init (nodes s' a) = init (nodes s1 a)" "trace s' = trace s1"
    using Cons.IH [OF s1(2)] by blast
  with s1 show ?case by simp
qed

lemma registered_run:
  "registered s ps \<Longrightarrow>
   InitOrDeinitGlobalVariables t i m s =
     Some (s\<lparr>trace := trace s @ (t, E_InitOrDeinitGlobalVariables i m) #
                map (\<lambda>a. (t, E_Initializer (init (nodes s a)) i m)) ps\<rparr>)"
  unfolding InitOrDeinitGlobalVariables_def
  by (subst loop_chain [where ps = ps]) (simp_all add: registered_def emit_def)

lemma loop_self_cycle:
  assumes "InitOrDeinitGlobalVariables_loop t i m cur s = Some y"
  shows "\<not> (cur = Some p \<and> next_ptr (nodes s p) = Some p)"
proof (rule InitOrDeinitGlobalVariables_loop.raw_induct
    [where P = "\<lambda>t i m cur s y. \<not> (cur = Some p \<and> next_ptr (nodes s p) = Some p)", OF _ assms])
  fix loop :: "nat \<Rightarrow> int \<Rightarrow> nat \<Rightarrow> nat option \<Rightarrow> 'a state_scheme \<Rightarrow> 'a state_scheme option"
  fix t i m cur s y
  assume IH: "\<And>t i m cur s y. loop t i m cur s = Some y \<Longrightarrow>
                 \<not> (cur = Some p \<and> next_ptr (nodes s p) = Some p)"
  assume body: "(case cur of None \<Rightarrow> Some s
      | Some q \<Rightarrow> loop t i m (next_ptr (nodes s q)) (emit t (E_Initializer (init (nodes s q)) i m) s))
      = Some y"
  show "\<not> (cur = Some p \<and> next_ptr (nodes s p) = Some p)"
  proof
    assume c: "cur = Some p \<and> next_ptr (nodes s p) = Some p"
    with body have "loop t i m (Some p) (emit t (E_Initializer (init (nodes s p)) i m) s) = Some y"
      by simp
    from IH [OF this] c show False by simp
  qed
qed

lemma spin_done: "\<not> initializingRuntimesCount s > 0 \<Longrightarrow> spin_IsInitializing s = Some s"
  by (subst spin_IsInitializing.simps) simp

lemma spin_forever:
  assumes "initializingRuntimesCount s > 0"
  shows "spin_IsInitializing s = None"
proof (cases "spin_IsInitializing s")
  case None
  then show ?thesis .
next
  case (Some y)
  have "\<not> initializingRuntimesCount s > 0"
    by (rule spin_IsInitializing.raw_induct
          [where P = "\<lambda>s y. \<not> initializingRuntimesCount s > 0", OF _ Some])
       (auto split: if_splits)
  with assms show ?thesis by simp
qed

lemma chain_run:
  "chain (nodes s) (initHeadNode s) ps \<Longrightarrow>
   InitOrDeinitGlobalVariables t i m s =
     Some (s\<lparr>trace := trace s @ (t, E_InitOrDeinitGlobalVariables i m) #
                map (\<lambda>a. (t, E_Initializer (init (nodes s a)) i m)) ps\<rparr>)"
  unfolding InitOrDeinitGlobalVariables_def
  by (subst loop_chain [where ps = ps]) (simp_all add: emit_def)

section \<open>Facts about steps and executions\<close>

lemma loop_effect:
  assumes "InitOrDeinitGlobalVariables_loop t i m cur s = Some s'"
  shows "\<exists>cbs. s' = s\<lparr>trace := trace s @ map (\<lambda>c. (t, E_Initializer c i m)) cbs\<rparr>"
proof (rule InitOrDeinitGlobalVariables_loop.raw_induct
    [where P = "\<lambda>t i m cur s s'. \<exists>cbs. s' = s\<lparr>trace := trace s @ map (\<lambda>c. (t, E_Initializer c i m)) cbs\<rparr>",
     OF _ assms])
  fix loop :: "nat \<Rightarrow> int \<Rightarrow> nat \<Rightarrow> nat option \<Rightarrow> 'a state_scheme \<Rightarrow> 'a state_scheme option"
  fix t i m cur s s'
  assume IH: "\<And>t i m cur s s'. loop t i m cur s = Some s' \<Longrightarrow>
                 \<exists>cbs. s' = s\<lparr>trace := trace s @ map (\<lambda>c. (t, E_Initializer c i m)) cbs\<rparr>"
  assume body: "(case cur of None \<Rightarrow> Some s
      | Some q \<Rightarrow> loop t i m (next_ptr (nodes s q)) (emit t (E_Initializer (init (nodes s q)) i m) s))
      = Some s'"
  show "\<exists>cbs. s' = s\<lparr>trace := trace s @ map (\<lambda>c. (t, E_Initializer c i m)) cbs\<rparr>"
  proof (cases cur)
    case None
    with body have "s' = s\<lparr>trace := trace s @ map (\<lambda>c. (t, E_Initializer c i m)) []\<rparr>" by simp
    then show ?thesis by blast
  next
    case (Some q)
    with body have "loop t i m (next_ptr (nodes s q)) (emit t (E_Initializer (init (nodes s q)) i m) s) = Some s'"
      by simp
    from IH [OF this] obtain cbs where
      "s' = (emit t (E_Initializer (init (nodes s q)) i m) s)\<lparr>trace :=
              trace (emit t (E_Initializer (init (nodes s q)) i m) s) @ map (\<lambda>c. (t, E_Initializer c i m)) cbs\<rparr>"
      by blast
    then have "s' = s\<lparr>trace := trace s @ map (\<lambda>c. (t, E_Initializer c i m)) (init (nodes s q) # cbs)\<rparr>"
      by (simp add: emit_def)
    then show ?thesis by blast
  qed
qed

lemma phase_effect:
  assumes "InitOrDeinitGlobalVariables t i m s = Some s'"
  shows "\<exists>cbs. s' = s\<lparr>trace := trace s @ (t, E_InitOrDeinitGlobalVariables i m) #
                        map (\<lambda>c. (t, E_Initializer c i m)) cbs\<rparr>"
proof -
  from loop_effect [OF assms [unfolded InitOrDeinitGlobalVariables_def]]
  show ?thesis by (auto simp: emit_def)
qed

lemmas step_defs = step_def in_init_def in_deinit_def step_call_def step_init_def step_deinit_def
  step_shutdown_def step_exit_def goto_def crash_def invalid_access_def emit_def
  atomicAdd_initializingRuntimesCount_def atomicAdd_aliveRuntimesCount_def
  compareAndSwap_globalRuntimeStatus_def konanConstructInstance_def
  Konan_Platform_setMemoryLeakChecker_def Konan_Platform_setCleanersLeakChecker_def
  isValidRuntime_def Let_def

lemmas phase_consts = INIT_GLOBALS_def INIT_THREAD_LOCAL_GLOBALS_def
  DEINIT_THREAD_LOCAL_GLOBALS_def DEINIT_GLOBALS_def

lemmas eval_defs = step_defs InitOrDeinitGlobalVariables_def InitOrDeinitGlobalVariables_loop.simps
  startup_def phase_consts GetWorkerId_def exit_arguments_def
  Kotlin_cleanersLeakCheckerEnabled_def Kotlin_memoryLeakCheckerEnabled_def

lemma step_frame:
  assumes "step t l s = Some s'"
  shows "nthreads s' = nthreads s \<and> halted s = None \<and> t < nthreads s \<and>
         (\<forall>u. u \<noteq> t \<longrightarrow> pc s' u = pc s u \<and> runtimeState s' u = runtimeState s u \<and>
                exiting s' u = exiting s u)"
proof (cases "pc s t")
qed (use assms in \<open>auto simp: step_defs dest!: phase_effect
         split: label.splits api.splits option.splits if_splits GlobalRuntimeStatus.splits\<close>)

lemma run_invariant:
  assumes "run sched s0 = Some s" "P s0"
    and "\<And>t l s s'. P s \<Longrightarrow> step t l s = Some s' \<Longrightarrow> P s'"
  shows "P s"
  using assms(1,2)
proof (induction sched arbitrary: s0)
  case Nil
  then show ?case by simp
next
  case (Cons a sched)
  obtain t l where a: "a = (t, l)" by (cases a)
  with Cons.prems obtain s1 where s1: "step t l s0 = Some s1" "run sched s1 = Some s"
    by (auto split: option.splits)
  from assms(3) [OF Cons.prems(2) s1(1)] have "P s1" .
  from Cons.IH [OF s1(2) this] show ?case .
qed

lemma run_exit_free_invariant:
  assumes "run sched s0 = Some s" "exit_free sched" "P s0"
    and "\<And>t l s s'. P s \<Longrightarrow> l \<noteq> Exit \<Longrightarrow> step t l s = Some s' \<Longrightarrow> P s'"
  shows "P s"
  using assms(1,2,3)
proof (induction sched arbitrary: s0)
  case Nil
  then show ?case by simp
next
  case (Cons a sched)
  obtain t l where a: "a = (t, l)" by (cases a)
  with Cons.prems obtain s1 where s1: "step t l s0 = Some s1" "run sched s1 = Some s"
    by (auto split: option.splits)
  from Cons.prems(2) a have l: "l \<noteq> Exit" and rest: "exit_free sched"
    by (simp_all add: exit_free_def)
  from assms(4) [OF Cons.prems(3) l s1(1)] have "P s1" .
  from Cons.IH [OF s1(2) rest this] show ?case .
qed

lemma run_append:
  "run (xs @ ys) s = (case run xs s of None \<Rightarrow> None | Some s1 \<Rightarrow> run ys s1)"
  by (induction xs arbitrary: s) (auto split: option.splits)

lemma run_nthreads:
  assumes "run sched (startup n nds head tail cl cc objc) = Some s"
  shows "nthreads s = n"
  by (rule run_invariant [OF assms]) (auto simp: startup_def dest: step_frame)

lemma tally_simps [simp]:
  "tally f [] = 0" "tally f (x # xs) = f x + tally f xs" "tally f (xs @ ys) = tally f xs + tally f ys"
  by (simp_all add: tally_def)

lemma tally_app1 [simp]: "tally f (xs @ [x]) = tally f xs + f x"
  by simp

lemma tally_zero: "(\<And>x. x \<in> set xs \<Longrightarrow> f x = 0) \<Longrightarrow> tally f xs = 0"
  by (induction xs) auto

lemma sum_point_update:
  fixes f g :: "nat \<Rightarrow> int"
  assumes "t < n" "\<And>u. u \<noteq> t \<Longrightarrow> g u = f u"
  shows "sum g {..<n} = sum f {..<n} - f t + g t"
proof -
  have fin: "finite {..<n}" and mem: "t \<in> {..<n}" using assms(1) by auto
  have "sum g {..<n} = g t + sum g ({..<n} - {t})" by (rule sum.remove [OF fin mem])
  moreover have "sum f {..<n} = f t + sum f ({..<n} - {t})" by (rule sum.remove [OF fin mem])
  moreover have "sum g ({..<n} - {t}) = sum f ({..<n} - {t})"
    by (rule sum.cong) (auto simp: assms(2))
  ultimately show ?thesis by simp
qed

subsection \<open>The alive count\<close>

lemma tally_alive_initializers [simp]:
  "tally (alive_delta u) (map (\<lambda>c. (t, E_Initializer c i m)) cbs) = 0"
  by (rule tally_zero) (auto simp: alive_delta_def)

lemma step_alive:
  assumes "step t l s = Some s'" "l \<noteq> Exit" "staying s t" "tls_ok (pc s t) (runtimeState s t)"
  shows "staying s' t \<and> tls_ok (pc s' t) (runtimeState s' t) \<and>
         aliveRuntimesCount s' - aliveRuntimesCount s =
           counted (pc s' t) (runtimeState s' t) - counted (pc s t) (runtimeState s t) \<and>
         (\<forall>u. tally (alive_delta u) (trace s') =
               tally (alive_delta u) (trace s) +
                 (if u = t then aliveRuntimesCount s' - aliveRuntimesCount s else 0))"
proof (cases "pc s t")
qed (use assms in \<open>auto simp: step_defs staying_def counted_def tls_ok_def alive_delta_def
         dest!: phase_effect
         split: label.splits api.splits option.splits if_splits GlobalRuntimeStatus.splits\<close>)

lemma alive_inv_startup: "alive_inv (startup n nds head tail cl cc objc)"
  by (simp add: alive_inv_def startup_def counted_def tls_ok_def staying_def)

lemma alive_inv_step:
  assumes "alive_inv s" "step t l s = Some s'" "l \<noteq> Exit"
  shows "alive_inv s'"
proof -
  from step_frame [OF assms(2)]
  have fr: "nthreads s' = nthreads s" "t < nthreads s"
    "\<And>u. u \<noteq> t \<Longrightarrow> pc s' u = pc s u \<and> runtimeState s' u = runtimeState s u \<and>
                   exiting s' u = exiting s u"
    by auto
  from assms(1) fr(2) have ok: "tls_ok (pc s t) (runtimeState s t)" and sy: "staying s t"
    by (simp_all add: alive_inv_def)
  from step_alive [OF assms(2,3) sy ok]
  have loc: "tls_ok (pc s' t) (runtimeState s' t)"
    "aliveRuntimesCount s' - aliveRuntimesCount s =
       counted (pc s' t) (runtimeState s' t) - counted (pc s t) (runtimeState s t)"
    "\<And>u. tally (alive_delta u) (trace s') =
       tally (alive_delta u) (trace s) +
         (if u = t then aliveRuntimesCount s' - aliveRuntimesCount s else 0)"
    and sy': "staying s' t"
    by auto
  have 0: "\<forall>u. u < nthreads s' \<longrightarrow> staying s' u"
  proof (intro allI impI)
    fix u assume "u < nthreads s'"
    with assms(1) fr sy' show "staying s' u"
      by (cases "u = t") (auto simp: alive_inv_def staying_def)
  qed
  have 1: "\<forall>u. u < nthreads s' \<longrightarrow> tls_ok (pc s' u) (runtimeState s' u)"
  proof (intro allI impI)
    fix u assume "u < nthreads s'"
    with assms(1) fr loc(1) show "tls_ok (pc s' u) (runtimeState s' u)"
      by (cases "u = t") (auto simp: alive_inv_def)
  qed
  have 2: "\<forall>u. tally (alive_delta u) (trace s') =
            (if u < nthreads s' then counted (pc s' u) (runtimeState s' u) else 0)"
  proof
    fix u
    from assms(1) have old: "tally (alive_delta u) (trace s) =
            (if u < nthreads s then counted (pc s u) (runtimeState s u) else 0)"
      by (simp add: alive_inv_def)
    show "tally (alive_delta u) (trace s') =
            (if u < nthreads s' then counted (pc s' u) (runtimeState s' u) else 0)"
    proof (cases "u = t")
      case True
      with old loc(2) loc(3) [of u] fr(1,2) show ?thesis by simp
    next
      case False
      with old loc(3) [of u] fr(1) fr(3) [of u] show ?thesis by simp
    qed
  qed
  have "(\<Sum>u<nthreads s. counted (pc s' u) (runtimeState s' u)) =
        (\<Sum>u<nthreads s. counted (pc s u) (runtimeState s u))
          - counted (pc s t) (runtimeState s t) + counted (pc s' t) (runtimeState s' t)"
    by (rule sum_point_update [OF fr(2)]) (simp add: fr(3))
  with assms(1) loc(2) fr(1)
  have 3: "aliveRuntimesCount s' = (\<Sum>t<nthreads s'. counted (pc s' t) (runtimeState s' t))"
    by (simp add: alive_inv_def)
  from 0 1 2 3 show ?thesis by (simp add: alive_inv_def)
qed

lemma counted_range: "counted p tls = 0 \<or> counted p tls = 1"
  by (cases p) (simp_all add: counted_def)

lemma sum_counted_bounds:
  "0 \<le> (\<Sum>t<n. counted (f t) (g t)) \<and> (\<Sum>t<n. counted (f t) (g t)) \<le> int n"
proof -
  have le: "counted (f t) (g t) \<le> 1" and ge: "0 \<le> counted (f t) (g t)" for t
    using counted_range [of "f t" "g t"] by auto
  have "(\<Sum>t<n. counted (f t) (g t)) \<le> (\<Sum>t<n. 1)"
    by (rule sum_mono) (rule le)
  moreover have "0 \<le> (\<Sum>t<n. counted (f t) (g t))"
    by (rule sum_nonneg) (rule ge)
  ultimately show ?thesis by simp
qed

subsection \<open>Phases and the atomic adds that make them due\<close>

lemma tally_phase_initializers [simp]:
  "tally (phase_run ph) (map (\<lambda>c. (t, E_Initializer c i m)) cbs) = 0"
  "tally (alive_add d) (map (\<lambda>c. (t, E_Initializer c i m)) cbs) = 0"
  "tally (alive_add_reaching d v) (map (\<lambda>c. (t, E_Initializer c i m)) cbs) = 0"
  by (rule tally_zero; auto simp: phase_run_def alive_add_def alive_add_reaching_def)+

lemma tally_cd_initializers [simp]:
  "tally construct_event (map (\<lambda>c. (t, E_Initializer c i m)) cbs) = 0"
  "tally destruct_event (map (\<lambda>c. (t, E_Initializer c i m)) cbs) = 0"
  by (rule tally_zero; auto simp: construct_event_def destruct_event_def)+

lemma step_phase_IG:
  assumes "step t l s = Some s'"
  shows "tally (phase_run INIT_GLOBALS) (trace s') + pending_phase INIT_GLOBALS (pc s' t)
           - tally (alive_add_reaching 1 1) (trace s') =
         tally (phase_run INIT_GLOBALS) (trace s) + pending_phase INIT_GLOBALS (pc s t)
           - tally (alive_add_reaching 1 1) (trace s)"
proof (cases "pc s t")
qed (use assms in \<open>auto simp: step_defs phase_run_def alive_add_reaching_def pending_phase_def
         phase_consts dest!: phase_effect
         split: label.splits api.splits option.splits if_splits GlobalRuntimeStatus.splits\<close>)

lemma step_phase_ITL:
  assumes "step t l s = Some s'"
  shows "tally (phase_run INIT_THREAD_LOCAL_GLOBALS) (trace s')
           + pending_phase INIT_THREAD_LOCAL_GLOBALS (pc s' t)
           - tally (alive_add 1) (trace s') =
         tally (phase_run INIT_THREAD_LOCAL_GLOBALS) (trace s)
           + pending_phase INIT_THREAD_LOCAL_GLOBALS (pc s t)
           - tally (alive_add 1) (trace s)"
proof (cases "pc s t")
qed (use assms in \<open>auto simp: step_defs phase_run_def alive_add_def pending_phase_def
         phase_consts dest!: phase_effect
         split: label.splits api.splits option.splits if_splits GlobalRuntimeStatus.splits\<close>)

lemma step_phase_DTL:
  assumes "step t l s = Some s'"
  shows "tally (phase_run DEINIT_THREAD_LOCAL_GLOBALS) (trace s')
           + pending_phase DEINIT_THREAD_LOCAL_GLOBALS (pc s' t)
           - tally (alive_add (- 1)) (trace s') =
         tally (phase_run DEINIT_THREAD_LOCAL_GLOBALS) (trace s)
           + pending_phase DEINIT_THREAD_LOCAL_GLOBALS (pc s t)
           - tally (alive_add (- 1)) (trace s)"
proof (cases "pc s t")
qed (use assms in \<open>auto simp: step_defs phase_run_def alive_add_def pending_phase_def
         phase_consts dest!: phase_effect
         split: label.splits api.splits option.splits if_splits GlobalRuntimeStatus.splits\<close>)

lemma step_phase_DG:
  assumes "step t l s = Some s'"
  shows "tally (phase_run DEINIT_GLOBALS) (trace s') + pending_phase DEINIT_GLOBALS (pc s' t)
           - tally (alive_add_reaching (- 1) 0) (trace s') =
         tally (phase_run DEINIT_GLOBALS) (trace s) + pending_phase DEINIT_GLOBALS (pc s t)
           - tally (alive_add_reaching (- 1) 0) (trace s)"
proof (cases "pc s t")
qed (use assms in \<open>auto simp: step_defs phase_run_def alive_add_reaching_def pending_phase_def
         phase_consts dest!: phase_effect
         split: label.splits api.splits option.splits if_splits GlobalRuntimeStatus.splits\<close>)

lemma step_tls_unset:
  assumes "step t l s = Some s'" "tls_unset (pc s t) (runtimeState s t)"
  shows "tls_unset (pc s' t) (runtimeState s' t)"
proof (cases "pc s t")
qed (use assms in \<open>auto simp: step_defs tls_unset_def dest!: phase_effect
         split: label.splits api.splits option.splits if_splits GlobalRuntimeStatus.splits\<close>)

lemma step_created:
  assumes "step t l s = Some s'" "tls_unset (pc s t) (runtimeState s t)"
  shows "tally (phase_run INIT_THREAD_LOCAL_GLOBALS) (trace s') + pending_created (pc s' t)
           - tally construct_event (trace s') =
         tally (phase_run INIT_THREAD_LOCAL_GLOBALS) (trace s) + pending_created (pc s t)
           - tally construct_event (trace s)"
proof (cases "pc s t")
qed (use assms in \<open>auto simp: step_defs phase_run_def construct_event_def pending_created_def
         tls_unset_def phase_consts dest!: phase_effect
         split: label.splits api.splits option.splits if_splits GlobalRuntimeStatus.splits\<close>)

lemma step_destroyed:
  assumes "step t l s = Some s'"
  shows "tally destruct_event (trace s') + pending_destroyed (pc s' t)
           - tally (phase_run DEINIT_THREAD_LOCAL_GLOBALS) (trace s') =
         tally destruct_event (trace s) + pending_destroyed (pc s t)
           - tally (phase_run DEINIT_THREAD_LOCAL_GLOBALS) (trace s)"
proof (cases "pc s t")
qed (use assms in \<open>auto simp: step_defs phase_run_def destruct_event_def pending_destroyed_def
         phase_consts dest!: phase_effect
         split: label.splits api.splits option.splits if_splits GlobalRuntimeStatus.splits\<close>)

lemma ledger_step:
  assumes st: "step t l s = Some s'"
    and loc: "gl s' + pd (pc s' t) = gl s + pd (pc s t)"
    and inv: "gl s + (\<Sum>u<nthreads s. pd (pc s u)) = (0::int)"
  shows "gl s' + (\<Sum>u<nthreads s'. pd (pc s' u)) = 0"
proof -
  from step_frame [OF st]
  have fr: "nthreads s' = nthreads s" "t < nthreads s" "\<And>u. u \<noteq> t \<Longrightarrow> pc s' u = pc s u"
    by auto
  have "(\<Sum>u<nthreads s. pd (pc s' u)) =
        (\<Sum>u<nthreads s. pd (pc s u)) - pd (pc s t) + pd (pc s' t)"
    by (rule sum_point_update [OF fr(2)]) (simp add: fr(3))
  with loc inv fr(1) show ?thesis by simp
qed

lemma ledger_run:
  assumes r: "run sched (startup n nds head tail cl cc objc) = Some s"
    and loc: "\<And>t l s s'. step t l s = Some s' \<Longrightarrow> tls_unset (pc s t) (runtimeState s t) \<Longrightarrow>
        tally dn (trace s') + pd (pc s' t) - tally due (trace s') =
        tally dn (trace s) + pd (pc s t) - tally due (trace s)"
    and idle: "pd Idle = 0"
  shows "ledger dn pd due s"
proof -
  let ?U = "\<lambda>s. \<forall>u. tls_unset (pc s u) (runtimeState s u)"
  have "(ledger dn pd due s \<and> nthreads s = n) \<and> ?U s"
  proof (rule run_invariant [OF r])
    show "(ledger dn pd due (startup n nds head tail cl cc objc) \<and>
          nthreads (startup n nds head tail cl cc objc) = n) \<and>
          ?U (startup n nds head tail cl cc objc)"
      by (simp add: ledger_def startup_def idle tls_unset_def)
  next
    fix t l s s'
    assume inv: "(ledger dn pd due s \<and> nthreads s = n) \<and> ?U s"
      and st: "step t l s = Some s'"
    from inv have led: "ledger dn pd due s" and n: "nthreads s = n"
      and un: "\<And>u. tls_unset (pc s u) (runtimeState s u)"
      by simp_all
    from step_frame [OF st] have fr: "nthreads s' = nthreads s" "t < nthreads s"
      "\<And>u. u \<noteq> t \<Longrightarrow> pc s' u = pc s u \<and> runtimeState s' u = runtimeState s u"
      by simp_all
    let ?gl = "\<lambda>s. tally dn (trace s) - tally due (trace s)"
    from loc [OF st un] have "?gl s' + pd (pc s' t) = ?gl s + pd (pc s t)" by simp
    moreover from led have "?gl s + (\<Sum>u<nthreads s. pd (pc s u)) = 0" by (simp add: ledger_def)
    ultimately have "?gl s' + (\<Sum>u<nthreads s'. pd (pc s' u)) = 0"
      by (rule ledger_step [OF st, where gl = ?gl])
    then have led': "ledger dn pd due s'" by (simp add: ledger_def)
    have "tls_unset (pc s' u) (runtimeState s' u)" for u
    proof (cases "u = t")
      case True
      with step_tls_unset [OF st un] show ?thesis by simp
    next
      case False
      with fr(3) [of u] un [of u] show ?thesis by simp
    qed
    with led' fr(1) n
    show "(ledger dn pd due s' \<and> nthreads s' = n) \<and> ?U s'" by simp
  qed
  then show ?thesis by simp
qed

subsection \<open>After the status is kGlobalRuntimeShutdown\<close>

lemma tally_construct_by_initializers [simp]:
  "tally (construct_by t) (map (\<lambda>c. (u, E_Initializer c i m)) cbs) = 0"
  by (rule tally_zero) (auto simp: construct_by_def)

lemma step_shutdown_stable:
  assumes "step u l s = Some s'" "globalRuntimeStatus s = kGlobalRuntimeShutdown"
  shows "globalRuntimeStatus s' = kGlobalRuntimeShutdown"
proof (cases "pc s u")
qed (use assms in \<open>auto simp: step_defs dest!: phase_effect
         split: label.splits api.splits option.splits if_splits GlobalRuntimeStatus.splits\<close>)

lemma step_construct_other:
  assumes "step u l s = Some s'" "t \<noteq> u"
  shows "tally (construct_by t) (trace s') = tally (construct_by t) (trace s)"
proof (cases "pc s u")
qed (use assms in \<open>auto simp: step_defs construct_by_def dest!: phase_effect
         split: label.splits api.splits option.splits if_splits GlobalRuntimeStatus.splits\<close>)

lemma step_no_construct:
  assumes "step t l s = Some s'" "globalRuntimeStatus s = kGlobalRuntimeShutdown"
    "\<not> past_tryStart (pc s t)"
  shows "\<not> past_tryStart (pc s' t) \<and>
         tally (construct_by t) (trace s') = tally (construct_by t) (trace s)"
proof (cases "pc s t")
qed (use assms in \<open>auto simp: step_defs construct_by_def past_tryStart_def dest!: phase_effect
         split: label.splits api.splits option.splits if_splits GlobalRuntimeStatus.splits\<close>)

lemma tryStart_after_shutdown:
  assumes "globalRuntimeStatus s = kGlobalRuntimeShutdown" "pc s t = I_cas" "halted s = None"
    "t < nthreads s"
  shows "step t Tau s =
           Some (s\<lparr>trace := trace s @
                   [(t, E_compareAndSwap kGlobalRuntimeUninitialized kGlobalRuntimeRunning
                          kGlobalRuntimeShutdown),
                    (t, E_consoleErrorf ''Kotlin runtime was shut down. Cannot create new runtimes\<newline>''),
                    (t, E_abort)],
                  halted := Some Abort_called\<rparr>)"
  using assms by (simp add: step_defs)

subsection \<open>No invalid access and no failed assertion\<close>

lemma step_holds:
  assumes "step t l s = Some s'" "tls_ok (pc s t) (runtimeState s t)" "holds s t" "staying s t"
  shows "holds s' t \<and> halted s' \<noteq> Some Invalid_access"
proof (cases "pc s t")
qed (use assms in \<open>auto simp: step_defs owned_def holds_def tls_ok_def staying_def
         dest!: phase_effect
         split: label.splits api.splits option.splits if_splits GlobalRuntimeStatus.splits\<close>)

lemma step_heap_frame:
  assumes "step t l s = Some s'" "tls_ok (pc s t) (runtimeState s t)"
    "handle_of s t \<noteq> Some q" "handle_of s' t \<noteq> Some q" "staying s t"
  shows "heap s' q = heap s q"
proof (cases "pc s t")
qed (use assms in \<open>auto simp: step_defs owned_def handle_of_def tls_ok_def staying_def
         dest!: phase_effect
         split: label.splits api.splits option.splits if_splits GlobalRuntimeStatus.splits\<close>)

lemma step_new_handle:
  assumes "step t l s = Some s'" "tls_ok (pc s t) (runtimeState s t)"
    "handle_of s' t = Some q" "staying s t"
  shows "handle_of s t = Some q \<or> heap s q = None"
proof (cases "pc s t")
qed (use assms in \<open>auto simp: step_defs owned_def handle_of_def tls_ok_def staying_def
         dest!: phase_effect
         split: label.splits api.splits option.splits if_splits GlobalRuntimeStatus.splits\<close>)

lemma step_shutting_down_other:
  assumes "step u l s = Some s'" "globalRuntimeStatus s = kGlobalRuntimeShuttingDown"
    "\<not> in_shutdown_pre (pc s u)"
  shows "globalRuntimeStatus s' = kGlobalRuntimeShuttingDown \<and> \<not> in_shutdown_pre (pc s' u)"
proof (cases "pc s u")
qed (use assms in \<open>auto simp: step_defs in_shutdown_pre_def dest!: phase_effect
         split: label.splits api.splits option.splits if_splits GlobalRuntimeStatus.splits\<close>)

lemma step_shutting_down_self:
  assumes "step t l s = Some s'"
    "in_shutdown_pre (pc s t) \<longrightarrow> globalRuntimeStatus s = kGlobalRuntimeShuttingDown"
    "in_shutdown_pre (pc s' t)"
  shows "globalRuntimeStatus s' = kGlobalRuntimeShuttingDown"
proof (cases "pc s t")
qed (use assms in \<open>auto simp: step_defs in_shutdown_pre_def dest!: phase_effect
         split: label.splits api.splits option.splits if_splits GlobalRuntimeStatus.splits\<close>)

lemma step_no_assertion:
  assumes "step t l s = Some s'" "tls_ok (pc s t) (runtimeState s t)" "holds s t"
    "in_shutdown_pre (pc s t) \<longrightarrow> globalRuntimeStatus s = kGlobalRuntimeShuttingDown"
    "counted (pc s t) (runtimeState s t) \<le> aliveRuntimesCount s"
    "x \<in> set (trace s')" "assertion_failed x" "staying s t"
  shows "x \<in> set (trace s)"
proof (cases "pc s t")
qed (use assms in \<open>auto simp: step_defs in_shutdown_pre_def assertion_failed_def
         assertion_messages_def owned_def holds_def tls_ok_def counted_def staying_def
         dest!: phase_effect
         split: label.splits api.splits option.splits if_splits GlobalRuntimeStatus.splits\<close>)

lemma sane_startup: "sane (startup n nds head tail cl cc objc)"
proof -
  have "alive_inv (startup n nds head tail cl cc objc)" by (rule alive_inv_startup)
  then show ?thesis
    unfolding sane_def
    by (simp add: startup_def holds_def owned_def handle_of_def in_shutdown_pre_def)
qed

lemma counted_le_alive:
  assumes "alive_inv s" "t < nthreads s"
  shows "counted (pc s t) (runtimeState s t) \<le> aliveRuntimesCount s"
proof -
  let ?f = "\<lambda>u. counted (pc s u) (runtimeState s u)"
  have fin: "finite {..<nthreads s}" and mem: "t \<in> {..<nthreads s}" using assms(2) by auto
  have "sum ?f {..<nthreads s} = ?f t + sum ?f ({..<nthreads s} - {t})"
    by (rule sum.remove [OF fin mem])
  moreover have "0 \<le> sum ?f ({..<nthreads s} - {t})"
  proof (rule sum_nonneg)
    fix u show "0 \<le> ?f u" using counted_range [of "pc s u" "runtimeState s u"] by auto
  qed
  ultimately show ?thesis using assms(1) by (simp add: alive_inv_def)
qed

lemma handle_of_frame:
  "pc s' u = pc s u \<Longrightarrow> runtimeState s' u = runtimeState s u \<Longrightarrow> handle_of s' u = handle_of s u"
  by (simp add: handle_of_def)

lemma holds_handle: "holds s u \<Longrightarrow> handle_of s u = Some q \<Longrightarrow> heap s q \<noteq> None"
  by (auto simp: holds_def handle_of_def split: option.splits)

lemma holds_frame:
  assumes "holds s u" "pc s' u = pc s u" "runtimeState s' u = runtimeState s u"
    "\<And>q. handle_of s u = Some q \<Longrightarrow> heap s' q = heap s q"
  shows "holds s' u"
proof (cases "owned (pc s u) (runtimeState s u)")
  case None
  with assms(2,3) show ?thesis by (simp add: holds_def)
next
  case (Some a)
  obtain q st where a: "a = (q, st)" by (cases a)
  with Some have "handle_of s u = Some q" by (simp add: handle_of_def)
  from assms(4) [OF this] assms(1,2,3) Some a show ?thesis by (simp add: holds_def)
qed

lemma sane_step:
  assumes sane: "sane s" and st: "step t l s = Some s'" and l: "l \<noteq> Exit"
  shows "sane s'"
proof -
  from step_frame [OF st]
  have fr: "nthreads s' = nthreads s" "t < nthreads s"
    "\<And>u. u \<noteq> t \<Longrightarrow> pc s' u = pc s u" "\<And>u. u \<noteq> t \<Longrightarrow> runtimeState s' u = runtimeState s u"
    by auto
  from sane have al: "alive_inv s"
    and ho: "\<And>u. u < nthreads s \<Longrightarrow> holds s u"
    and di: "\<And>a b q. a < nthreads s \<Longrightarrow> b < nthreads s \<Longrightarrow> a \<noteq> b \<Longrightarrow>
               handle_of s a = Some q \<Longrightarrow> handle_of s b \<noteq> Some q"
    and sd: "\<And>u. u < nthreads s \<Longrightarrow> in_shutdown_pre (pc s u) \<Longrightarrow>
               globalRuntimeStatus s = kGlobalRuntimeShuttingDown"
    and un: "\<And>a b. a < nthreads s \<Longrightarrow> b < nthreads s \<Longrightarrow> in_shutdown_pre (pc s a) \<Longrightarrow>
               in_shutdown_pre (pc s b) \<Longrightarrow> a = b"
    and na: "\<And>x. x \<in> set (trace s) \<Longrightarrow> \<not> assertion_failed x"
    unfolding sane_def by blast+
  from al fr(2) have ok: "tls_ok (pc s t) (runtimeState s t)" and sy: "staying s t"
    by (simp_all add: alive_inv_def)
  note ht = ho [OF fr(2)]
  have al': "alive_inv s'" by (rule alive_inv_step [OF al st l])
  from step_holds [OF st ok ht sy] have ht': "holds s' t" and ni: "halted s' \<noteq> Some Invalid_access"
    by simp_all
  have other: "handle_of s' t \<noteq> Some q \<and> handle_of s t \<noteq> Some q"
    if "u < nthreads s" "u \<noteq> t" "handle_of s u = Some q" for u q
  proof -
    from di [OF that(1) fr(2) that(2) that(3)] have a: "handle_of s t \<noteq> Some q" .
    have "handle_of s' t \<noteq> Some q"
    proof
      assume "handle_of s' t = Some q"
      from step_new_handle [OF st ok this sy] a have "heap s q = None" by simp
      with holds_handle [OF ho [OF that(1)] that(3)] show False by simp
    qed
    with a show ?thesis by simp
  qed
  have ho': "holds s' u" if "u < nthreads s'" for u
  proof (cases "u = t")
    case True
    with ht' show ?thesis by simp
  next
    case False
    from that fr(1) have u: "u < nthreads s" by simp
    show ?thesis
    proof (rule holds_frame [OF ho [OF u] fr(3) [OF False] fr(4) [OF False]])
      fix q assume q: "handle_of s u = Some q"
      from other [OF u False q] show "heap s' q = heap s q"
        using step_heap_frame [OF st ok _ _ sy] by simp
    qed
  qed
  have di': "handle_of s' b \<noteq> Some q"
    if "a < nthreads s'" "b < nthreads s'" "a \<noteq> b" "handle_of s' a = Some q" for a b q
  proof -
    from that fr(1) have ab: "a < nthreads s" "b < nthreads s" by simp_all
    show ?thesis
    proof (cases "a = t")
      case True
      with that(3) have bt: "b \<noteq> t" by simp
      show ?thesis
      proof
        assume "handle_of s' b = Some q"
        with handle_of_frame [OF fr(3) [OF bt] fr(4) [OF bt]] have "handle_of s b = Some q" by simp
        from other [OF ab(2) bt this] that(4) True show False by simp
      qed
    next
      case False
      with handle_of_frame [OF fr(3) [OF False] fr(4) [OF False]] that(4)
      have qa: "handle_of s a = Some q" by simp
      show ?thesis
      proof (cases "b = t")
        case True
        from other [OF ab(1) False qa] True show ?thesis by simp
      next
        case bt: False
        from di [OF ab that(3) qa] handle_of_frame [OF fr(3) [OF bt] fr(4) [OF bt]]
        show ?thesis by simp
      qed
    qed
  qed
  have pre_t: "in_shutdown_pre (pc s t) \<longrightarrow> globalRuntimeStatus s = kGlobalRuntimeShuttingDown"
    using sd [OF fr(2)] by blast
  have sd': "globalRuntimeStatus s' = kGlobalRuntimeShuttingDown \<and> (u \<noteq> t \<longrightarrow> \<not> in_shutdown_pre (pc s' t))"
    if "u < nthreads s'" "in_shutdown_pre (pc s' u)" for u
  proof (cases "u = t")
    case True
    with step_shutting_down_self [OF st pre_t] that show ?thesis by simp
  next
    case False
    from that fr(1) fr(3) [OF False] have u: "u < nthreads s" "in_shutdown_pre (pc s u)" by simp_all
    from sd [OF u] have sh: "globalRuntimeStatus s = kGlobalRuntimeShuttingDown" .
    have "\<not> in_shutdown_pre (pc s t)"
    proof
      assume "in_shutdown_pre (pc s t)"
      from un [OF fr(2) u(1) this u(2)] False show False by simp
    qed
    from step_shutting_down_other [OF st sh this] show ?thesis by simp
  qed
  have un': "a = b"
    if "a < nthreads s'" "b < nthreads s'" "in_shutdown_pre (pc s' a)" "in_shutdown_pre (pc s' b)"
    for a b
  proof (rule ccontr)
    assume ne: "a \<noteq> b"
    show False
    proof (cases "a = t")
      case True
      with ne have "b \<noteq> t" by simp
      with sd' [OF that(2,4)] that(3) True show False by simp
    next
      case False
      from sd' [OF that(1,3)] False have nt: "\<not> in_shutdown_pre (pc s' t)" by simp
      with that(4) have bt: "b \<noteq> t" by auto
      from that fr(1) fr(3) [OF False] fr(3) [OF bt]
      have "a < nthreads s" "b < nthreads s" "in_shutdown_pre (pc s a)" "in_shutdown_pre (pc s b)"
        by simp_all
      from un [OF this] ne show False by simp
    qed
  qed
  have na': "\<not> assertion_failed x" if "x \<in> set (trace s')" for x
  proof
    assume "assertion_failed x"
    from step_no_assertion [OF st ok ht pre_t counted_le_alive [OF al fr(2)] that this sy]
    have "x \<in> set (trace s)" .
    from na [OF this] \<open>assertion_failed x\<close> show False by simp
  qed
  show ?thesis
    unfolding sane_def
    using al' ho' di' sd' un' ni na' by blast
qed

lemma reachable_sane:
  assumes "run sched (startup n nds head tail cl cc objc) = Some s" "exit_free sched"
  shows "sane s"
  by (rule run_exit_free_invariant [where P = sane, OF assms])
     (rule sane_startup, rule sane_step)

text \<open>
  As long as no thread exits: in every state the process reaches from its start, no step has
  dereferenced a pointer that is not a handle of the heap, no \<open>RuntimeAssert\<close> and no
  \<open>RuntimeCheck\<close> has failed, and a thread that enters \<open>deinitRuntime\<close> does so on
  a handle of the heap that is \<open>kRunning\<close>.
\<close>

proposition reachable_states_sane:
  assumes "run sched (startup n nds head tail cl cc objc) = Some s" "exit_free sched"
  shows "halted s \<noteq> Some Invalid_access \<and>
         (\<forall>x. x \<in> set (trace s) \<longrightarrow> \<not> assertion_failed x) \<and>
         (\<forall>t h. t < n \<and> (pc s t = D_assert h \<or> pc s t = D_mark h)
                  \<longrightarrow> (\<exists>r. heap s h = Some r \<and> status r = kRunning))"
proof -
  from reachable_sane [OF assms] have sane: "sane s" .
  have n: "nthreads s = n" by (rule run_nthreads [OF assms(1)])
  have "\<exists>r. heap s h = Some r \<and> status r = kRunning"
    if "t < n" "pc s t = D_assert h \<or> pc s t = D_mark h" for t h
  proof -
    from sane that(1) n have "holds s t" by (simp add: sane_def)
    with that(2) show ?thesis by (auto simp: holds_def owned_def split: option.splits)
  qed
  with sane show ?thesis by (auto simp: sane_def)
qed

subsection \<open>A thread running alone does what the function does\<close>

text \<open>
  The threads' steps and the functions of the first part are two readings of the same code.
  When a thread runs an entry point from beginning to end with no other thread in between, it
  ends in the state the function returns, or aborts in the state the function aborts in.
\<close>

lemma solo_ensure:
  assumes "pc s t = Idle" "halted s = None" "t < nthreads s" "runtimeState s t = None"
    "heap s p = None" "chain (nodes s) (initHeadNode s) ps"
    "globalRuntimeStatus s \<noteq> kGlobalRuntimeShutdown"
  shows "(case Kotlin_initRuntimeIfNeeded t (Some p) mem wrk s of
            Inr s' \<Rightarrow>
              run (if aliveRuntimesCount s = 0 then ensure_first t p mem wrk
                   else ensure_later t p mem wrk) s = Some s'
          | Inl f \<Rightarrow> False)"
  using assms
  by (simp add: Kotlin_initRuntimeIfNeeded_def initRuntime_def ensure_first_def ensure_later_def
        step_defs chain_run phase_consts fun_upd_idem)

lemma solo_ensure_failing:
  assumes "pc s t = Idle" "halted s = None" "t < nthreads s" "runtimeState s t = None"
    "globalRuntimeStatus s \<noteq> kGlobalRuntimeShutdown"
  shows "(case Kotlin_initRuntimeIfNeeded t None mem wrk s of
            Inr s' \<Rightarrow> run (ensure_failing t) s = Some s'
          | Inl f \<Rightarrow> False)"
  using assms
  by (simp add: Kotlin_initRuntimeIfNeeded_def initRuntime_def ensure_failing_def
        step_defs fun_upd_idem)

lemma solo_ensure_after_shutdown:
  assumes "pc s t = Idle" "halted s = None" "t < nthreads s" "runtimeState s t = None"
    "globalRuntimeStatus s = kGlobalRuntimeShutdown"
  shows "(case Kotlin_initRuntimeIfNeeded t alloc mem wrk s of
            Inl (Aborted s') \<Rightarrow>
              run [(t, Call EnsureRuntime), (t, Tau), (t, Tau)] s =
                Some (s'\<lparr>pc := (pc s)(t := I_cas), halted := Some Abort_called\<rparr>)
          | _ \<Rightarrow> False)"
  using assms
  by (simp add: Kotlin_initRuntimeIfNeeded_def initRuntime_def konan_abort_def step_defs)

lemma solo_teardown:
  assumes "pc s t = Idle" "halted s = None" "t < nthreads s" "runtimeState s t = Some p"
    "heap s p = Some r" "status r = kRunning" "chain (nodes s) (initHeadNode s) ps"
    "\<not> exiting s t"
  shows "(case Kotlin_deinitRuntimeIfNeeded t s of
            Inr s' \<Rightarrow>
              run (if aliveRuntimesCount s = 1 then teardown_last t else teardown_other t) s = Some s'
          | Inl f \<Rightarrow> False)"
  using assms
  by (simp add: Kotlin_deinitRuntimeIfNeeded_def deinitRuntime_def teardown_last_def
        teardown_other_def step_defs chain_run phase_consts fun_upd_idem)

lemma solo_shutdown:
  assumes "pc s t = Idle" "halted s = None" "t < nthreads s" "runtimeState s t = Some p"
    "heap s p = Some r" "status r = kRunning" "chain (nodes s) (initHeadNode s) ps"
    "globalRuntimeStatus s = kGlobalRuntimeRunning" "initializingRuntimesCount s \<le> 0"
    "\<not> g_checkLeaks s" "aliveRuntimesCount s = 1" "\<not> exiting s t"
  shows "(case Kotlin_shutdownRuntime t s of
            Inr s' \<Rightarrow> run (shutdown_alone t) s = Some s'
          | Inl f \<Rightarrow> False)"
  using assms
  by (simp add: Kotlin_shutdownRuntime_def deinitRuntime_def shutdown_alone_def spin_done
        Kotlin_cleanersLeakCheckerEnabled_def Kotlin_memoryLeakCheckerEnabled_def
        step_defs chain_run phase_consts fun_upd_idem)

lemma solo_shutdown_leak:
  assumes "pc s t = Idle" "halted s = None" "t < nthreads s" "runtimeState s t = Some p"
    "heap s p = Some r"
    "globalRuntimeStatus s = kGlobalRuntimeRunning" "initializingRuntimesCount s \<le> 0"
    "g_checkLeaks s" "aliveRuntimesCount s > 1"
  shows "(case Kotlin_shutdownRuntime t s of
            Inl (Aborted s') \<Rightarrow>
              run (shutdown_checked t) s =
                Some (s'\<lparr>pc := (pc s)(t := S_count p), halted := Some Abort_called\<rparr>)
          | _ \<Rightarrow> False)"
  using assms
  by (simp add: Kotlin_shutdownRuntime_def shutdown_checked_def spin_done konan_abort_def
        Kotlin_cleanersLeakCheckerEnabled_def Kotlin_memoryLeakCheckerEnabled_def
        step_defs)

lemma solo_shutdown_twice:
  assumes "pc s t = Idle" "halted s = None" "t < nthreads s"
    "globalRuntimeStatus s \<noteq> kGlobalRuntimeRunning"
  shows "(case Kotlin_shutdownRuntime t s of
            Inl (Aborted s') \<Rightarrow>
              run [(t, Call ShutdownRuntime), (t, Tau)] s =
                Some (s'\<lparr>pc := (pc s)(t := S_cas), halted := Some Abort_called\<rparr>)
          | _ \<Rightarrow> False)"
  using assms
  by (cases "globalRuntimeStatus s")
     (simp_all add: Kotlin_shutdownRuntime_def konan_abort_def step_defs)

text \<open>
  A thread that exits with one callback registered, on a handle that is \<open>kRunning\<close>
  and the last one alive: the host's call ends in the state
  \<open>Kotlin_deinitRuntimeCallback\<close> returns, and the thread is gone.
\<close>

lemma solo_thread_exit:
  assumes "pc s t = Idle" "halted s = None" "t < nthreads s"
    "exit_arguments t (trace s) = [Some p]"
    "heap s p = Some r" "status r = kRunning" "chain (nodes s) (initHeadNode s) ps"
    "aliveRuntimesCount s = 1"
  shows "(case Kotlin_deinitRuntimeCallback t (Some p) s of
            Inr s' \<Rightarrow>
              run (thread_exit_last t) s =
                Some (s'\<lparr>pc := (pc s)(t := Exited), exiting := (exiting s)(t := True),
                         callbacks := (callbacks s)(t := [])\<rparr>)
          | Inl f \<Rightarrow> False)"
  using assms
  by (simp add: Kotlin_deinitRuntimeCallback_def deinitRuntime_def thread_exit_last_def
        step_defs chain_run phase_consts fun_upd_idem)

section \<open>The initializer registry keeps the order of registration\<close>

text \<open>
  Claim C7, as amended. Starting from the empty registry, when the nodes \<open>ns\<close> are
  registered one after the other, each of them once only and each with a null \<open>next\<close>
  field, then \<open>initTailNode\<close> is the node registered last, and for every phase tag
  \<open>initialize\<close> and every memory-manager state \<open>memory\<close>,
  \<open>InitOrDeinitGlobalVariables\<close> returns after calling the callback of every registered
  node exactly once, in the order of registration, with that tag and that state.
\<close>

theorem registry_order:
  assumes "initHeadNode s = None" "initTailNode s = None" "distinct ns"
    "\<forall>n\<in>set ns. next_ptr (nodes s n) = None"
  shows "\<exists>s'. register_all ns s = Inr s' \<and> trace s' = trace s \<and>
            initTailNode s' = (if ns = [] then None else Some (last ns)) \<and>
            InitOrDeinitGlobalVariables t initialize memory s' =
              Some (s'\<lparr>trace := trace s' @ (t, E_InitOrDeinitGlobalVariables initialize memory) #
                      map (\<lambda>n. (t, E_Initializer (init (nodes s n)) initialize memory)) ns\<rparr>)"
proof -
  from assms have "registered s []" by (simp add: registered_def)
  from register_all_registered [OF this assms(3) _ assms(4)]
  obtain s' where s': "register_all ns s = Inr s'" "registered s' ns"
      "\<forall>a. init (nodes s' a) = init (nodes s a)" "trace s' = trace s" by auto
  from registered_run [OF s'(2), of t initialize memory] s'(3)
  have "InitOrDeinitGlobalVariables t initialize memory s' =
              Some (s'\<lparr>trace := trace s' @ (t, E_InitOrDeinitGlobalVariables initialize memory) #
                      map (\<lambda>n. (t, E_Initializer (init (nodes s n)) initialize memory)) ns\<rparr>)"
    by simp
  with s' show ?thesis by (auto simp: registered_def)
qed

theorem registry_order_witness:
  "\<exists>s'. register_all [4, 2, 9] registry0 = Inr s' \<and>
         initTailNode s' = Some 9 \<and>
         map_option trace (InitOrDeinitGlobalVariables 0 INIT_GLOBALS 5 s') =
           Some [(0, E_InitOrDeinitGlobalVariables 0 5), (0, E_Initializer 4 0 5),
                 (0, E_Initializer 2 0 5), (0, E_Initializer 9 0 5)]"
  using registry_order [of registry0 "[4, 2, 9]" 0 INIT_GLOBALS 5]
  by (auto simp: registry0_def INIT_GLOBALS_def)

text \<open>
  As C7 is stated, for every registration, it fails: when the same node is registered twice,
  the second call makes the node its own successor, and a phase never gets past it.
\<close>

theorem registry_twice_counterexample:
  "(case register_all [4, 4] registry0 of
      Inl f \<Rightarrow> False
    | Inr s' \<Rightarrow> InitOrDeinitGlobalVariables 0 INIT_GLOBALS 5 s' = None)"
proof -
  have "InitOrDeinitGlobalVariables_loop 0 INIT_GLOBALS 5 (Some 4) s = None"
    if "next_ptr (nodes s 4) = Some 4" for s :: state
    using loop_self_cycle [of 0 INIT_GLOBALS 5 "Some 4" s _ 4] that
    by (cases "InitOrDeinitGlobalVariables_loop 0 INIT_GLOBALS 5 (Some 4) s") auto
  then show ?thesis
    by (simp add: registry0_def AppendToInitializersTail_def InitOrDeinitGlobalVariables_def)
qed

text \<open>
  The null \<open>next\<close> field is needed as well: a node registered with a successor already
  in its \<open>next\<close> field brings that successor along, and a phase calls a callback that
  was never registered.
\<close>

lemma registry_prelinked_next:
  "(case register_all [1]
           (registry0\<lparr>nodes := (\<lambda>p. \<lparr>init = p, next_ptr = (if p = 1 then Some 2 else None)\<rparr>)\<rparr>) of
      Inl f \<Rightarrow> False
    | Inr s' \<Rightarrow>
        map_option trace (InitOrDeinitGlobalVariables 0 INIT_GLOBALS 5 s') =
          Some [(0, E_InitOrDeinitGlobalVariables 0 5), (0, E_Initializer 1 0 5),
                (0, E_Initializer 2 0 5)])"
  by (simp add: registry0_def AppendToInitializersTail_def InitOrDeinitGlobalVariables_def
        InitOrDeinitGlobalVariables_loop.simps INIT_GLOBALS_def emit_def)

section \<open>The entry points, one call at a time\<close>

text \<open>
  Claim C5. On a thread that already holds a handle (its thread-local \<open>runtimeState\<close> is
  not null), \<open>Kotlin_initRuntimeIfNeeded\<close> returns with the whole state unchanged: no
  handle is constructed, no counter moves, no initializer phase runs, and the thread's handle
  is the one it had.
\<close>

theorem ensure_idempotent:
  "isValidRuntime t s \<Longrightarrow> Kotlin_initRuntimeIfNeeded t alloc mem wrk s = Inr s"
  by (simp add: Kotlin_initRuntimeIfNeeded_def)

theorem ensure_idempotent_witness:
  "isValidRuntime 0 (two_runtimes True True) \<and>
   Kotlin_initRuntimeIfNeeded 0 (Some 12) 3 4 (two_runtimes True True) = Inr (two_runtimes True True)"
  using ensure_idempotent [of 0 "two_runtimes True True" "Some 12" 3 4]
  by (simp add: isValidRuntime_def two_runtimes_def)

text \<open>
  Claim C4. When the global status is not \<open>kGlobalRuntimeRunning\<close> at the first
  compare-and-swap of \<open>Kotlin_shutdownRuntime\<close>, the call aborts the process right
  there: nothing but the failed compare-and-swap, the diagnostic and the abort happens, and
  the state is otherwise untouched. The diagnostic is "Kotlin runtime must have been
  initialized" when no runtime has started yet, and "Cannot shutdown Kotlin runtime twice"
  when a shutdown is in progress or complete.
\<close>

theorem shutdown_not_running_aborts:
  assumes "globalRuntimeStatus s \<noteq> kGlobalRuntimeRunning"
  shows "Kotlin_shutdownRuntime t s =
           Inl (Aborted (s\<lparr>trace := trace s @
             [(t, E_compareAndSwap kGlobalRuntimeRunning kGlobalRuntimeShuttingDown
                    (globalRuntimeStatus s)),
              (t, E_consoleErrorf
                    (if globalRuntimeStatus s = kGlobalRuntimeUninitialized
                     then ''Kotlin runtime must have been initialized\<newline>''
                     else ''Cannot shutdown Kotlin runtime twice\<newline>'')),
              (t, E_abort)]\<rparr>))"
  using assms
  by (cases "globalRuntimeStatus s")
     (simp_all add: Kotlin_shutdownRuntime_def compareAndSwap_globalRuntimeStatus_def
        konan_abort_def emit_def)

theorem shutdown_not_running_aborts_witness:
  "globalRuntimeStatus registry0 \<noteq> kGlobalRuntimeRunning \<and>
   Kotlin_shutdownRuntime 0 registry0 =
     Inl (Aborted (registry0\<lparr>trace :=
       [(0, E_compareAndSwap kGlobalRuntimeRunning kGlobalRuntimeShuttingDown
              kGlobalRuntimeUninitialized),
        (0, E_consoleErrorf ''Kotlin runtime must have been initialized\<newline>''),
        (0, E_abort)]\<rparr>))"
  using shutdown_not_running_aborts [of registry0 0]
  by (simp add: registry0_def)

text \<open>
  Claim C8. When the allocation of the handle fails (it is reached whenever the global status
  is not \<open>kGlobalRuntimeShutdown\<close>), \<open>initRuntime\<close> returns the null pointer to its
  caller instead of aborting; at that point the thread-local \<open>runtimeState\<close> and the heap
  are as before, \<open>aliveRuntimesCount\<close> is unchanged, and what has happened is the
  guard's increment, the compare-and-swap, \<open>SetKonanTerminateHandler\<close>, the failed
  allocation and the guard's decrement: no initializer phase has run.
\<close>

theorem alloc_failure_returns_null:
  assumes "globalRuntimeStatus s \<noteq> kGlobalRuntimeShutdown"
  shows "\<exists>s'. initRuntime t None mem wrk s = Inr (None, s') \<and>
           runtimeState s' = runtimeState s \<and> heap s' = heap s \<and>
           aliveRuntimesCount s' = aliveRuntimesCount s \<and>
           initializingRuntimesCount s' = initializingRuntimesCount s \<and>
           trace s' = trace s @
             [(t, E_atomicAdd_initializingRuntimesCount 1 (initializingRuntimesCount s + 1)),
              (t, E_compareAndSwap kGlobalRuntimeUninitialized kGlobalRuntimeRunning
                    (globalRuntimeStatus s)),
              (t, E_SetKonanTerminateHandler),
              (t, E_konanConstructInstance None),
              (t, E_atomicAdd_initializingRuntimesCount (- 1) (initializingRuntimesCount s))]"
  using assms
  by (simp add: initRuntime_def atomicAdd_initializingRuntimesCount_def
        compareAndSwap_globalRuntimeStatus_def konanConstructInstance_def emit_def Let_def)

theorem alloc_failure_returns_null_witness:
  "globalRuntimeStatus registry0 \<noteq> kGlobalRuntimeShutdown \<and>
   (\<exists>s'. initRuntime 0 None 5 6 registry0 = Inr (None, s') \<and>
      runtimeState s' 0 = None \<and> aliveRuntimesCount s' = 0 \<and>
      trace s' =
        [(0, E_atomicAdd_initializingRuntimesCount 1 1),
         (0, E_compareAndSwap kGlobalRuntimeUninitialized kGlobalRuntimeRunning
               kGlobalRuntimeUninitialized),
         (0, E_SetKonanTerminateHandler),
         (0, E_konanConstructInstance None),
         (0, E_atomicAdd_initializingRuntimesCount (- 1) 0)])"
  using alloc_failure_returns_null [of registry0 0 5 6]
  by (auto simp: registry0_def)

text \<open>
  Claim C10. When the allocation fails inside \<open>Kotlin_initRuntimeIfNeeded\<close>, the entry
  point goes on to call \<open>konan::onThreadExit\<close> with the thread-local
  \<open>runtimeState\<close>, which is still the null pointer: the registration is the last thing
  the call does, and its argument is null.
\<close>

theorem alloc_failure_registers_null:
  assumes "\<not> isValidRuntime t s" "globalRuntimeStatus s \<noteq> kGlobalRuntimeShutdown"
  shows "\<exists>s'. Kotlin_initRuntimeIfNeeded t None mem wrk s = Inr s' \<and>
           runtimeState s' t = None \<and>
           trace s' = trace s @
             [(t, E_atomicAdd_initializingRuntimesCount 1 (initializingRuntimesCount s + 1)),
              (t, E_compareAndSwap kGlobalRuntimeUninitialized kGlobalRuntimeRunning
                    (globalRuntimeStatus s)),
              (t, E_SetKonanTerminateHandler),
              (t, E_konanConstructInstance None),
              (t, E_atomicAdd_initializingRuntimesCount (- 1) (initializingRuntimesCount s)),
              (t, E_onThreadExit None)]"
  using assms
  by (simp add: Kotlin_initRuntimeIfNeeded_def initRuntime_def isValidRuntime_def
        atomicAdd_initializingRuntimesCount_def
        compareAndSwap_globalRuntimeStatus_def konanConstructInstance_def emit_def Let_def)

theorem alloc_failure_registers_null_witness:
  "\<not> isValidRuntime 0 registry0 \<and> globalRuntimeStatus registry0 \<noteq> kGlobalRuntimeShutdown \<and>
   (\<exists>s'. Kotlin_initRuntimeIfNeeded 0 None 5 6 registry0 = Inr s' \<and>
      runtimeState s' 0 = None \<and> last (trace s') = (0, E_onThreadExit None))"
  using alloc_failure_registers_null [of 0 registry0 5 6]
  by (auto simp: registry0_def isValidRuntime_def)

text \<open>
  Claim C6. \<open>deinitRuntime\<close> on a handle that is \<open>kRunning\<close> (the registry being a
  chain of the nodes \<open>ps\<close>) does, in this order and nothing else: it marks the handle
  \<open>kDestroying\<close>; restores the memory-manager state; decrements
  \<open>aliveRuntimesCount\<close>; runs the phase \<open>DEINIT_THREAD_LOCAL_GLOBALS\<close>; runs the
  phase \<open>DEINIT_GLOBALS\<close> if and only if the decrement reached 0; releases the worker;
  deinitializes the memory-manager state; destroys the handle object; and last calls
  \<open>WorkerDestroyThreadDataIfNeeded\<close> with the worker id it read before the handle was
  destroyed. The handle is then no longer in the heap.
\<close>

theorem teardown_order:
  assumes "heap s p = Some r" "status r = kRunning" "chain (nodes s) (initHeadNode s) ps"
  shows "\<exists>s'. deinitRuntime t (Some p) s = Inr s' \<and>
           heap s' = (heap s)(p := None) \<and>
           aliveRuntimesCount s' = aliveRuntimesCount s - 1 \<and>
           trace s' = trace s @ map (Pair t)
             ([E_status_write p kDestroying,
               E_RestoreMemory (memoryState r),
               E_atomicAdd_aliveRuntimesCount (- 1) (aliveRuntimesCount s - 1),
               E_InitOrDeinitGlobalVariables DEINIT_THREAD_LOCAL_GLOBALS (memoryState r)] @
              map (\<lambda>a. E_Initializer (init (nodes s a)) DEINIT_THREAD_LOCAL_GLOBALS (memoryState r)) ps @
              (if aliveRuntimesCount s - 1 = 0
               then E_InitOrDeinitGlobalVariables DEINIT_GLOBALS (memoryState r) #
                    map (\<lambda>a. E_Initializer (init (nodes s a)) DEINIT_GLOBALS (memoryState r)) ps
               else []) @
              [E_WorkerDeinit (worker r),
               E_DeinitMemory (memoryState r),
               E_konanDestructInstance p,
               E_WorkerDestroyThreadDataIfNeeded (GetWorkerId (worker r))])"
  using assms
  by (simp add: deinitRuntime_def atomicAdd_aliveRuntimesCount_def Let_def chain_run emit_def
        comp_def)

theorem teardown_order_witness:
  "heap (two_runtimes False False) 10 = Some \<lparr>memoryState = 5, worker = 6, status = kRunning\<rparr> \<and>
   chain (nodes (two_runtimes False False)) (initHeadNode (two_runtimes False False)) [4, 2] \<and>
   (\<exists>s'. deinitRuntime 0 (Some 10) (two_runtimes False False) = Inr s' \<and>
      heap s' 10 = None \<and> aliveRuntimesCount s' = 1 \<and>
      trace s' =
        [(0, E_status_write 10 kDestroying), (0, E_RestoreMemory 5),
         (0, E_atomicAdd_aliveRuntimesCount (- 1) 1),
         (0, E_InitOrDeinitGlobalVariables 2 5),
         (0, E_Initializer 4 2 5), (0, E_Initializer 2 2 5),
         (0, E_WorkerDeinit 6), (0, E_DeinitMemory 5), (0, E_konanDestructInstance 10),
         (0, E_WorkerDestroyThreadDataIfNeeded 6)])"
  using teardown_order [of "two_runtimes False False" 10
      "\<lparr>memoryState = 5, worker = 6, status = kRunning\<rparr>" "[4, 2]" 0]
  by (auto simp: two_runtimes_def DEINIT_THREAD_LOCAL_GLOBALS_def GetWorkerId_def)

text \<open>
  With only the cleaner leak checker enabled and the runtime of thread 1 alive,
  \<open>Kotlin_shutdownRuntime\<close> on thread 0 neither waits for the workers nor looks at
  \<open>aliveRuntimesCount\<close>: the condition of that step reads
  \<open>Kotlin_memoryLeakCheckerEnabled() || Kotlin_memoryLeakCheckerEnabled()\<close>.
\<close>

lemma shutdown_skips_leak_check:
  "Kotlin_cleanersLeakCheckerEnabled (two_runtimes False True) \<and>
   aliveRuntimesCount (two_runtimes False True) - 1 > 0 \<and>
   (\<exists>s'. Kotlin_shutdownRuntime 0 (two_runtimes False True) = Inr s' \<and>
      globalRuntimeStatus s' = kGlobalRuntimeShutdown \<and>
      aliveRuntimesCount s' = 1 \<and>
      trace s' =
        [(0, E_compareAndSwap kGlobalRuntimeRunning kGlobalRuntimeShuttingDown kGlobalRuntimeRunning),
         (0, E_PerformFullGC 5), (0, E_ShutdownCleaners True),
         (0, E_compareAndSwap kGlobalRuntimeShuttingDown kGlobalRuntimeShutdown
               kGlobalRuntimeShuttingDown),
         (0, E_status_write 10 kDestroying), (0, E_RestoreMemory 5),
         (0, E_atomicAdd_aliveRuntimesCount (- 1) 1),
         (0, E_InitOrDeinitGlobalVariables 2 5),
         (0, E_Initializer 4 2 5), (0, E_Initializer 2 2 5),
         (0, E_WorkerDeinit 6), (0, E_DeinitMemory 5), (0, E_konanDestructInstance 10),
         (0, E_WorkerDestroyThreadDataIfNeeded 6)])"
  by (simp add: two_runtimes_def Kotlin_shutdownRuntime_def Kotlin_cleanersLeakCheckerEnabled_def
        Kotlin_memoryLeakCheckerEnabled_def compareAndSwap_globalRuntimeStatus_def
        spin_done deinitRuntime_def atomicAdd_aliveRuntimesCount_def
        InitOrDeinitGlobalVariables_def InitOrDeinitGlobalVariables_loop.simps
        DEINIT_THREAD_LOCAL_GLOBALS_def GetWorkerId_def emit_def Let_def)

lemma exit_callback_on_null:
  "Kotlin_deinitRuntimeCallback t None s = Inl (InvalidAccess s)"
  by (simp add: Kotlin_deinitRuntimeCallback_def deinitRuntime_def)

section \<open>The entry points under every interleaving\<close>

text \<open>
  Claim C1, as amended. Once the global status is \<open>kGlobalRuntimeShutdown\<close>, in every
  interleaving that follows: the status stays \<open>kGlobalRuntimeShutdown\<close>; a thread that
  was not already between the compare-and-swap of \<open>initRuntime\<close> and the allocation
  never gets there and never calls \<open>konanConstructInstance\<close>; and when such a thread
  reaches the compare-and-swap of \<open>initRuntime\<close>, its step prints "Kotlin runtime was
  shut down. Cannot create new runtimes" and aborts the process.
\<close>

theorem no_runtime_after_shutdown:
  assumes "run sched s = Some s'" "globalRuntimeStatus s = kGlobalRuntimeShutdown"
    "\<not> past_tryStart (pc s t)"
  shows "globalRuntimeStatus s' = kGlobalRuntimeShutdown \<and>
         \<not> past_tryStart (pc s' t) \<and>
         tally (construct_by t) (trace s') = tally (construct_by t) (trace s) \<and>
         (pc s' t = I_cas \<and> halted s' = None \<and> t < nthreads s' \<longrightarrow>
            step t Tau s' =
              Some (s'\<lparr>trace := trace s' @
                      [(t, E_compareAndSwap kGlobalRuntimeUninitialized kGlobalRuntimeRunning
                             kGlobalRuntimeShutdown),
                       (t, E_consoleErrorf
                             ''Kotlin runtime was shut down. Cannot create new runtimes\<newline>''),
                       (t, E_abort)],
                     halted := Some Abort_called\<rparr>))"
proof -
  let ?P = "\<lambda>x. globalRuntimeStatus x = kGlobalRuntimeShutdown \<and> \<not> past_tryStart (pc x t) \<and>
                 tally (construct_by t) (trace x) = tally (construct_by t) (trace s)"
  have "?P s'"
  proof (rule run_invariant [OF assms(1)])
    show "?P s" using assms(2,3) by simp
  next
    fix u l x x'
    assume P: "?P x" and st: "step u l x = Some x'"
    show "?P x'"
    proof (cases "u = t")
      case True
      with step_no_construct [of t l x x'] step_shutdown_stable [OF st] P st show ?thesis by simp
    next
      case False
      then have "t \<noteq> u" by simp
      from step_construct_other [OF st this] step_frame [OF st] step_shutdown_stable [OF st] P False
      show ?thesis by simp
    qed
  qed
  with tryStart_after_shutdown [of s' t] show ?thesis by blast
qed

theorem no_runtime_after_shutdown_witness:
  "\<exists>s s'. run (ensure_first 0 10 5 6 @ shutdown_alone 0) start2 = Some s \<and>
      globalRuntimeStatus s = kGlobalRuntimeShutdown \<and> \<not> past_tryStart (pc s 1) \<and>
      run [(1, Call EnsureRuntime), (1, Tau)] s = Some s' \<and>
      pc s' 1 = I_cas \<and> tally (construct_by 1) (trace s') = 0 \<and>
      map_option halted (step 1 Tau s') = Some (Some Abort_called)"
proof -
  have "map_option (\<lambda>s. (globalRuntimeStatus s, pc s 1, runtimeState s 1, halted s, nthreads s,
                          tally (construct_by 1) (trace s)))
          (run (ensure_first 0 10 5 6 @ shutdown_alone 0) start2)
        = Some (kGlobalRuntimeShutdown, Idle, None, None, 2, 0)"
    by (simp add: ensure_first_def shutdown_alone_def start2_def eval_defs construct_by_def)
  then obtain s where s: "run (ensure_first 0 10 5 6 @ shutdown_alone 0) start2 = Some s"
    "globalRuntimeStatus s = kGlobalRuntimeShutdown" "pc s 1 = Idle" "runtimeState s 1 = None"
    "halted s = None" "nthreads s = 2" "tally (construct_by 1) (trace s) = 0"
    by auto
  from s(3) have np: "\<not> past_tryStart (pc s 1)" by (simp add: past_tryStart_def)
  from s obtain s' where s': "run [(1, Call EnsureRuntime), (1, Tau)] s = Some s'"
    "pc s' 1 = I_cas" "halted s' = None" "nthreads s' = 2"
    by (simp add: step_defs)
  from no_runtime_after_shutdown [OF s'(1) s(2) np] s' s(7)
  have "tally (construct_by 1) (trace s') = 0"
    "map_option halted (step 1 Tau s') = Some (Some Abort_called)"
    by simp_all
  with s s' np show ?thesis by blast
qed

text \<open>
  As C1 is stated, for the status \<open>kGlobalRuntimeShuttingDown\<close> too, it fails: thread 0
  has a runtime and begins the shutdown (its first compare-and-swap makes the status
  \<open>kGlobalRuntimeShuttingDown\<close>); thread 1 then calls \<open>Kotlin_initRuntimeIfNeeded\<close>,
  whose compare-and-swap returns \<open>kGlobalRuntimeShuttingDown\<close>, which is not
  \<open>kGlobalRuntimeShutdown\<close>: the call constructs the handle 11 and brings it to
  \<open>kRunning\<close>.
\<close>

theorem construct_while_shutting_down_counterexample:
  "map_option (\<lambda>s. (globalRuntimeStatus s, heap s 11, runtimeState s 1, pc s 1,
                     aliveRuntimesCount s, halted s, drop 17 (trace s)))
     (run (ensure_first 0 10 5 6 @ [(0, Call ShutdownRuntime), (0, Tau)] @ ensure_later 1 11 7 8) start2)
   = Some (kGlobalRuntimeShuttingDown,
           Some \<lparr>memoryState = 7, worker = 8, status = kRunning\<rparr>, Some 11, Idle, 2, None,
           [(0, E_compareAndSwap kGlobalRuntimeRunning kGlobalRuntimeShuttingDown
                  kGlobalRuntimeRunning),
            (1, E_atomicAdd_initializingRuntimesCount 1 1),
            (1, E_compareAndSwap kGlobalRuntimeUninitialized kGlobalRuntimeRunning
                  kGlobalRuntimeShuttingDown),
            (1, E_SetKonanTerminateHandler),
            (1, E_konanConstructInstance (Some 11)),
            (1, E_InitMemory 7),
            (1, E_WorkerInit True 8),
            (1, E_atomicAdd_aliveRuntimesCount 1 2),
            (1, E_InitOrDeinitGlobalVariables 1 7),
            (1, E_Initializer 4 1 7), (1, E_Initializer 2 1 7),
            (1, E_status_write 11 kRunning),
            (1, E_atomicAdd_initializingRuntimesCount (- 1) 0),
            (1, E_onThreadExit (Some 11))])"
  by (simp add: ensure_first_def ensure_later_def start2_def eval_defs)

text \<open>The phases and the atomic adds, with the threads in between counted.\<close>

lemma phase_ledgers:
  assumes "run sched (startup n nds head tail cl cc objc) = Some s"
  shows "tally (phase_run INIT_GLOBALS) (trace s) + (\<Sum>t<n. pending_phase INIT_GLOBALS (pc s t))
           = tally (alive_add_reaching 1 1) (trace s) \<and>
         tally (phase_run DEINIT_GLOBALS) (trace s) + (\<Sum>t<n. pending_phase DEINIT_GLOBALS (pc s t))
           = tally (alive_add_reaching (- 1) 0) (trace s) \<and>
         tally (phase_run INIT_THREAD_LOCAL_GLOBALS) (trace s)
           + (\<Sum>t<n. pending_phase INIT_THREAD_LOCAL_GLOBALS (pc s t))
           = tally (alive_add 1) (trace s) \<and>
         tally (phase_run DEINIT_THREAD_LOCAL_GLOBALS) (trace s)
           + (\<Sum>t<n. pending_phase DEINIT_THREAD_LOCAL_GLOBALS (pc s t))
           = tally (alive_add (- 1)) (trace s) \<and>
         tally (phase_run INIT_THREAD_LOCAL_GLOBALS) (trace s) + (\<Sum>t<n. pending_created (pc s t))
           = tally construct_event (trace s) \<and>
         tally destruct_event (trace s) + (\<Sum>t<n. pending_destroyed (pc s t))
           = tally (phase_run DEINIT_THREAD_LOCAL_GLOBALS) (trace s)"
proof -
  have 1: "ledger (phase_run INIT_GLOBALS) (pending_phase INIT_GLOBALS) (alive_add_reaching 1 1) s"
    by (rule ledger_run [OF assms step_phase_IG]) (simp_all add: pending_phase_def)
  have 2: "ledger (phase_run DEINIT_GLOBALS) (pending_phase DEINIT_GLOBALS)
             (alive_add_reaching (- 1) 0) s"
    by (rule ledger_run [OF assms step_phase_DG]) (simp_all add: pending_phase_def)
  have 3: "ledger (phase_run INIT_THREAD_LOCAL_GLOBALS) (pending_phase INIT_THREAD_LOCAL_GLOBALS)
             (alive_add 1) s"
    by (rule ledger_run [OF assms step_phase_ITL]) (simp_all add: pending_phase_def)
  have 4: "ledger (phase_run DEINIT_THREAD_LOCAL_GLOBALS) (pending_phase DEINIT_THREAD_LOCAL_GLOBALS)
             (alive_add (- 1)) s"
    by (rule ledger_run [OF assms step_phase_DTL]) (simp_all add: pending_phase_def)
  have 5: "ledger (phase_run INIT_THREAD_LOCAL_GLOBALS) pending_created construct_event s"
    by (rule ledger_run [OF assms step_created]) (simp_all add: pending_created_def)
  have 6: "ledger destruct_event pending_destroyed (phase_run DEINIT_THREAD_LOCAL_GLOBALS) s"
    by (rule ledger_run [OF assms step_destroyed]) (simp_all add: pending_destroyed_def)
  from 1 2 3 4 5 6 show ?thesis
    unfolding ledger_def run_nthreads [OF assms] by blast
qed


text \<open>
  Claim C3, as amended. In every execution from the start of the process, at every moment:
  the phase \<open>INIT_GLOBALS\<close> has run once for each increment of
  \<open>aliveRuntimesCount\<close> that reached 1, and \<open>DEINIT_GLOBALS\<close> once for each
  decrement that reached 0, but for the threads that have done the atomic add and stand before
  the phase; \<open>INIT_THREAD_LOCAL_GLOBALS\<close> has run once for each increment and once for
  each handle constructed, \<open>DEINIT_THREAD_LOCAL_GLOBALS\<close> once for each decrement and
  once for each handle destroyed, again but for the threads in between. When every thread is
  idle or gone the numbers are equal.
\<close>

theorem phases_follow_alive_count:
  assumes "run sched (startup n nds head tail cl cc objc) = Some s"
  shows "(tally (phase_run INIT_GLOBALS) (trace s) + (\<Sum>t<n. pending_phase INIT_GLOBALS (pc s t))
            = tally (alive_add_reaching 1 1) (trace s) \<and>
          tally (phase_run DEINIT_GLOBALS) (trace s) + (\<Sum>t<n. pending_phase DEINIT_GLOBALS (pc s t))
            = tally (alive_add_reaching (- 1) 0) (trace s) \<and>
          tally (phase_run INIT_THREAD_LOCAL_GLOBALS) (trace s)
            + (\<Sum>t<n. pending_phase INIT_THREAD_LOCAL_GLOBALS (pc s t))
            = tally (alive_add 1) (trace s) \<and>
          tally (phase_run DEINIT_THREAD_LOCAL_GLOBALS) (trace s)
            + (\<Sum>t<n. pending_phase DEINIT_THREAD_LOCAL_GLOBALS (pc s t))
            = tally (alive_add (- 1)) (trace s) \<and>
          tally (phase_run INIT_THREAD_LOCAL_GLOBALS) (trace s) + (\<Sum>t<n. pending_created (pc s t))
            = tally construct_event (trace s) \<and>
          tally destruct_event (trace s) + (\<Sum>t<n. pending_destroyed (pc s t))
            = tally (phase_run DEINIT_THREAD_LOCAL_GLOBALS) (trace s)) \<and>
         ((\<forall>t. t < n \<longrightarrow> pc s t = Idle \<or> pc s t = Exited) \<longrightarrow>
            tally (phase_run INIT_GLOBALS) (trace s) = tally (alive_add_reaching 1 1) (trace s) \<and>
            tally (phase_run DEINIT_GLOBALS) (trace s) = tally (alive_add_reaching (- 1) 0) (trace s) \<and>
            tally (phase_run INIT_THREAD_LOCAL_GLOBALS) (trace s) = tally (alive_add 1) (trace s) \<and>
            tally (phase_run INIT_THREAD_LOCAL_GLOBALS) (trace s) = tally construct_event (trace s) \<and>
            tally (phase_run DEINIT_THREAD_LOCAL_GLOBALS) (trace s) = tally (alive_add (- 1)) (trace s) \<and>
            tally (phase_run DEINIT_THREAD_LOCAL_GLOBALS) (trace s) = tally destruct_event (trace s))"
proof -
  note led = phase_ledgers [OF assms]
  have "tally (phase_run INIT_GLOBALS) (trace s) = tally (alive_add_reaching 1 1) (trace s) \<and>
        tally (phase_run DEINIT_GLOBALS) (trace s) = tally (alive_add_reaching (- 1) 0) (trace s) \<and>
        tally (phase_run INIT_THREAD_LOCAL_GLOBALS) (trace s) = tally (alive_add 1) (trace s) \<and>
        tally (phase_run INIT_THREAD_LOCAL_GLOBALS) (trace s) = tally construct_event (trace s) \<and>
        tally (phase_run DEINIT_THREAD_LOCAL_GLOBALS) (trace s) = tally (alive_add (- 1)) (trace s) \<and>
        tally (phase_run DEINIT_THREAD_LOCAL_GLOBALS) (trace s) = tally destruct_event (trace s)"
    if idle: "\<forall>t. t < n \<longrightarrow> pc s t = Idle \<or> pc s t = Exited"
  proof -
    have z: "(\<Sum>t<n. pd (pc s t)) = 0" if "pd Idle = 0 \<and> pd Exited = 0" for pd :: "pc \<Rightarrow> int"
      by (rule sum.neutral) (use idle that in auto)
    have "(\<Sum>t<n. pending_phase INIT_GLOBALS (pc s t)) = 0"
      "(\<Sum>t<n. pending_phase DEINIT_GLOBALS (pc s t)) = 0"
      "(\<Sum>t<n. pending_phase INIT_THREAD_LOCAL_GLOBALS (pc s t)) = 0"
      "(\<Sum>t<n. pending_phase DEINIT_THREAD_LOCAL_GLOBALS (pc s t)) = 0"
      "(\<Sum>t<n. pending_created (pc s t)) = 0"
      "(\<Sum>t<n. pending_destroyed (pc s t)) = 0"
      by (rule z, simp add: pending_phase_def pending_created_def pending_destroyed_def)+
    with led show ?thesis by simp
  qed
  with led show ?thesis by blast
qed

theorem phases_follow_alive_count_witness:
  "\<exists>s. run (ensure_first 0 10 5 6 @ ensure_later 1 11 7 8 @ teardown_other 0) start2 = Some s \<and>
       map (\<lambda>ph. tally (phase_run ph) (trace s))
         [INIT_GLOBALS, INIT_THREAD_LOCAL_GLOBALS, DEINIT_THREAD_LOCAL_GLOBALS, DEINIT_GLOBALS]
         = [1, 2, 1, 0] \<and>
       tally (alive_add_reaching 1 1) (trace s) = 1 \<and> tally (alive_add 1) (trace s) = 2 \<and>
       tally (alive_add (- 1)) (trace s) = 1 \<and> tally (alive_add_reaching (- 1) 0) (trace s) = 0"
proof -
  have "map_option (\<lambda>s. (map (pc s) [0, 1],
           map (\<lambda>ph. tally (phase_run ph) (trace s))
             [INIT_GLOBALS, INIT_THREAD_LOCAL_GLOBALS, DEINIT_THREAD_LOCAL_GLOBALS, DEINIT_GLOBALS]))
          (run (ensure_first 0 10 5 6 @ ensure_later 1 11 7 8 @ teardown_other 0) start2)
        = Some ([Idle, Idle], [1, 2, 1, 0])"
    by (simp add: ensure_first_def ensure_later_def teardown_other_def start2_def eval_defs
          phase_run_def)
  then obtain s where s: "run (ensure_first 0 10 5 6 @ ensure_later 1 11 7 8 @ teardown_other 0) start2 = Some s"
    "pc s 0 = Idle" "pc s 1 = Idle"
    "map (\<lambda>ph. tally (phase_run ph) (trace s))
       [INIT_GLOBALS, INIT_THREAD_LOCAL_GLOBALS, DEINIT_THREAD_LOCAL_GLOBALS, DEINIT_GLOBALS]
     = [1, 2, 1, 0]"
    by auto
  have sum2: "(\<Sum>t<2. f (pc s t)) = f (pc s 0) + f (pc s 1)" for f :: "pc \<Rightarrow> int"
    by (simp add: numeral_2_eq_2)
  from phases_follow_alive_count [OF s(1) [unfolded start2_def]] s
  show ?thesis by (intro exI [of _ s]) (simp add: sum2 pending_phase_def phase_consts)
qed

text \<open>
  As C3 is stated, exactly once in total, it fails: a thread that creates its runtime, tears
  it down, creates it again and tears it down again is the first runtime twice and the last
  runtime twice, and \<open>INIT_GLOBALS\<close> and \<open>DEINIT_GLOBALS\<close> run twice each.
\<close>

theorem init_global_twice_counterexample:
  "map_option (\<lambda>s. (tally (phase_run INIT_GLOBALS) (trace s),
                     tally (phase_run DEINIT_GLOBALS) (trace s), map (pc s) [0, 1], halted s))
     (run (ensure_first 0 10 5 6 @ teardown_last 0 @ ensure_first 0 10 5 6 @ teardown_last 0) start2)
   = Some (2, 2, [Idle, Idle], None)"
  by (simp add: ensure_first_def teardown_last_def start2_def eval_defs phase_run_def)

text \<open>
  As long as no thread exits, the count is right. In every state the process reaches from its
  start, with \<open>n\<close> threads: \<open>aliveRuntimesCount\<close> is the number of threads whose
  handle is between the increment of \<open>initRuntime\<close> and the decrement of
  \<open>deinitRuntime\<close>; for each thread this is the number of its increments no decrement
  of its own has matched, which is 0 or 1, so no decrement comes without an increment before
  it; the count is never negative and at most \<open>n\<close>; and when all threads are idle and
  without a handle, it is 0.
\<close>

proposition alive_count_without_thread_exit:
  assumes "run sched (startup n nds head tail cl cc objc) = Some s" "exit_free sched"
  shows "aliveRuntimesCount s = (\<Sum>t<n. counted (pc s t) (runtimeState s t)) \<and>
         (\<forall>t. t < n \<longrightarrow> counted (pc s t) (runtimeState s t) = tally (alive_delta t) (trace s)) \<and>
         (\<forall>t. tally (alive_delta t) (trace s) = 0 \<or> tally (alive_delta t) (trace s) = 1) \<and>
         0 \<le> aliveRuntimesCount s \<and> aliveRuntimesCount s \<le> int n \<and>
         ((\<forall>t. t < n \<longrightarrow> pc s t = Idle \<and> runtimeState s t = None) \<longrightarrow> aliveRuntimesCount s = 0)"
proof -
  have "alive_inv (startup n nds head tail cl cc objc) \<and>
        nthreads (startup n nds head tail cl cc objc) = n"
    by (rule conjI [OF alive_inv_startup]) (simp add: startup_def)
  then have inv: "alive_inv s \<and> nthreads s = n"
    by (rule run_exit_free_invariant [OF assms]) (auto intro: alive_inv_step dest: step_frame)
  then have a: "aliveRuntimesCount s = (\<Sum>t<n. counted (pc s t) (runtimeState s t))"
    and b: "\<And>t. tally (alive_delta t) (trace s) =
            (if t < n then counted (pc s t) (runtimeState s t) else 0)"
    by (auto simp: alive_inv_def)
  from b have c: "\<forall>t. tally (alive_delta t) (trace s) = 0 \<or> tally (alive_delta t) (trace s) = 1"
    using counted_range by auto
  from a have d: "(\<forall>t. t < n \<longrightarrow> pc s t = Idle \<and> runtimeState s t = None) \<longrightarrow> aliveRuntimesCount s = 0"
    by (auto simp: counted_def)
  from a b c d sum_counted_bounds [where n = n and f = "pc s" and g = "runtimeState s"] show ?thesis by simp
qed

lemma alive_count_without_thread_exit_example:
  "exit_free (ensure_first 0 10 5 6 @ ensure_later 1 11 7 8 @ teardown_other 0) \<and>
   (\<exists>s. run (ensure_first 0 10 5 6 @ ensure_later 1 11 7 8 @ teardown_other 0) start2 = Some s \<and>
       aliveRuntimesCount s = 1 \<and> map (\<lambda>t. counted (pc s t) (runtimeState s t)) [0, 1] = [0, 1] \<and>
       map (\<lambda>t. tally (alive_delta t) (trace s)) [0, 1] = [0, 1])"
proof -
  have ef: "exit_free (ensure_first 0 10 5 6 @ ensure_later 1 11 7 8 @ teardown_other 0)"
    by (simp add: exit_free_def ensure_first_def ensure_later_def teardown_other_def)
  have "map_option (\<lambda>s. (aliveRuntimesCount s, map (pc s) [0, 1], map (runtimeState s) [0, 1]))
          (run (ensure_first 0 10 5 6 @ ensure_later 1 11 7 8 @ teardown_other 0) start2)
        = Some (1, [Idle, Idle], [None, Some 11])"
    by (simp add: ensure_first_def ensure_later_def teardown_other_def start2_def eval_defs)
  then obtain s where s: "run (ensure_first 0 10 5 6 @ ensure_later 1 11 7 8 @ teardown_other 0) start2 = Some s"
    "aliveRuntimesCount s = 1" "pc s 0 = Idle" "pc s 1 = Idle" "runtimeState s 0 = None"
    "runtimeState s 1 = Some 11"
    by auto
  from alive_count_without_thread_exit [OF s(1) [unfolded start2_def] ef]
  have "\<forall>t. t < 2 \<longrightarrow> counted (pc s t) (runtimeState s t) = tally (alive_delta t) (trace s)"
    by blast
  then have "counted (pc s 0) (runtimeState s 0) = tally (alive_delta 0) (trace s)"
    "counted (pc s 1) (runtimeState s 1) = tally (alive_delta 1) (trace s)"
    by simp_all
  with s ef show ?thesis by (intro conjI exI [of _ s]) (simp_all add: counted_def)
qed

text \<open>
  Claim C9 does not hold of the code: \<open>Kotlin_deinitRuntimeIfNeeded\<close> destroys the
  handle and leaves the callback that \<open>Kotlin_initRuntimeIfNeeded\<close> registered for it
  in place, so when the thread exits \<open>deinitRuntime\<close> is called once more on the same
  pointer. Thread 0 creates its runtime at address 10 and tears it down; thread 1 creates its
  runtime, which the allocator places at address 10.

  \<^item> Thread 0 exits. Its callback finds the handle of thread 1, which is \<open>kRunning\<close>,
  and tears it down: \<open>aliveRuntimesCount\<close> is 0 and the handle is destroyed while the
  thread-local \<open>runtimeState\<close> of thread 1 still points to it; thread 0 has made one
  increment and two decrements.

  \<^item> Thread 1 then calls \<open>Kotlin_shutdownRuntime\<close>, the memory leak checker
  being on and the cleaner leak checker off: \<open>aliveRuntimesCount - 1\<close> is
  \<open>-1\<close> and the \<open>RuntimeAssert\<close> "Cannot be negative" of the code fails.

  \<^item> Or else thread 1 calls \<open>Kotlin_deinitRuntimeIfNeeded\<close> and has passed the
  \<open>RuntimeAssert\<close> of \<open>deinitRuntime\<close> when thread 0 exits; the
  \<open>RuntimeAssert\<close> in the callback of thread 0 passes too, the flag being still
  \<open>kRunning\<close>. Both go on to the decrement: \<open>aliveRuntimesCount\<close> is 1, then 0,
  then \<open>-1\<close>. No invalid access and no failed assertion has happened.
\<close>

theorem alive_count_negative_after_thread_exit:
  "map_option (\<lambda>s. (aliveRuntimesCount s, halted s, map (pc s) [0, 1], map (runtimeState s) [0, 1],
                     heap s 10, map (\<lambda>t. tally (alive_delta t) (trace s)) [0, 1]))
     (run (ensure_first 0 10 5 6 @ teardown_last 0 @ ensure_first 1 10 7 8 @ thread_exit_last 0)
        start2)
   = Some (0, None, [Exited, Idle], [None, Some 10], None, [- 1, 1]) \<and>
   map_option (\<lambda>s. (aliveRuntimesCount s, halted s, map (pc s) [0, 1], map (runtimeState s) [0, 1],
                     drop (length (trace s) - 3) (trace s)))
     (run (ensure_first 0 10 5 6 @ teardown_last 0 @ ensure_first 1 10 7 8 @ thread_exit_last 0 @
           [(1, Call (SetMemoryLeakChecker True)), (1, Call (SetCleanersLeakChecker False))] @
           shutdown_checked 1)
        start2)
   = Some (0, Some Abort_called, [Exited, S_count 10], [None, Some 10],
           [(1, E_WaitNativeWorkersTermination), (1, E_consoleErrorf ''Cannot be negative''),
            (1, E_abort)]) \<and>
   map_option (\<lambda>s. (aliveRuntimesCount s, halted s, map (pc s) [0, 1], drop 47 (trace s)))
     (run (ensure_first 0 10 5 6 @ teardown_last 0 @ ensure_first 1 10 7 8 @
           [(1, Call DeinitRuntimeIfNeeded), (1, Tau)] @
           [(0, Exit), (0, Callback 0), (0, Tau)] @
           [(1, Tau), (1, Tau), (1, Tau)] @
           [(0, Tau), (0, Tau), (0, Tau)])
        start2)
   = Some (- 1, None, [D_tl 10 False, D_tl 10 True],
           [(1, E_status_write 10 kDestroying), (1, E_RestoreMemory 7),
            (1, E_atomicAdd_aliveRuntimesCount (- 1) 0),
            (0, E_status_write 10 kDestroying), (0, E_RestoreMemory 7),
            (0, E_atomicAdd_aliveRuntimesCount (- 1) (- 1))])"
  by (simp add: ensure_first_def teardown_last_def thread_exit_last_def shutdown_checked_def
        start2_def eval_defs alive_delta_def)

text \<open>When the address is not in use at the exit of thread 0, the callback reads the
  destroyed handle; so does a later \<open>Kotlin_deinitRuntimeIfNeeded\<close> of thread 1 after
  the callback of thread 0 has destroyed its handle. A thread whose allocation failed
  registered the null pointer, and its callback dereferences it.\<close>

lemma exit_callback_on_destroyed_handle:
  "map_option (\<lambda>s. (halted s, map (pc s) [0, 1], aliveRuntimesCount s))
     (run (ensure_first 0 10 5 6 @ teardown_last 0 @ [(0, Exit), (0, Callback 0), (0, Tau)]) start2)
   = Some (Some Invalid_access, [D_assert 10, Idle], 0) \<and>
   map_option (\<lambda>s. (halted s, map (pc s) [0, 1], aliveRuntimesCount s))
     (run (ensure_first 0 10 5 6 @ teardown_last 0 @ ensure_first 1 10 7 8 @ thread_exit_last 0 @
           [(1, Call DeinitRuntimeIfNeeded), (1, Tau)]) start2)
   = Some (Some Invalid_access, [Exited, D_assert 10], 0) \<and>
   map_option (\<lambda>s. (halted s, map (pc s) [0, 1], aliveRuntimesCount s))
     (run (ensure_failing 0 @ [(0, Exit), (0, Callback 0)]) start2)
   = Some (Some Invalid_access, [X_exit, Idle], 0)"
  by (simp add: ensure_first_def teardown_last_def thread_exit_last_def ensure_failing_def
        start2_def eval_defs)

text \<open>
  Claim C2 does not hold of the code: the condition of the leak-check step asks the memory
  leak checker twice and the cleaner leak checker never. From the start of the process, with
  the memory leak checker switched off and the cleaner leak checker switched on, threads 0 and
  1 create their runtimes and thread 0 shuts down. The shutdown never calls
  \<open>WaitNativeWorkersTermination\<close> and does not abort: it ends with the status
  \<open>kGlobalRuntimeShutdown\<close> while the runtime of thread 1 is alive and running.
\<close>

theorem leak_check_skipped_with_cleaners_checker:
  "map_option (\<lambda>s. (g_checkLeaks s, g_checkLeakedCleaners s, halted s, globalRuntimeStatus s,
                     aliveRuntimesCount s, map (pc s) [0, 1], heap s 11,
                     filter (\<lambda>x. snd x = E_WaitNativeWorkersTermination) (trace s)))
     (run ([(0, Call (SetMemoryLeakChecker False)), (0, Call (SetCleanersLeakChecker True))] @
           ensure_first 0 10 5 6 @ ensure_later 1 11 7 8 @ shutdown_other 0)
        (startup 2 (\<lambda>p. \<lparr>init = p, next_ptr = None\<rparr>) None None True True False))
   = Some (False, True, None, kGlobalRuntimeShutdown, 1, [Idle, Idle],
           Some \<lparr>memoryState = 7, worker = 8, status = kRunning\<rparr>, [])"
  by (simp add: ensure_first_def ensure_later_def shutdown_other_def eval_defs)

text \<open>With the memory leak checker on instead, the same shutdown waits for the workers,
  finds one other runtime alive and aborts.\<close>

lemma leak_check_with_memory_checker:
  "map_option (\<lambda>s. (halted s, pc s 0, drop (length (trace s) - 3) (trace s)))
     (run ([(0, Call (SetCleanersLeakChecker False))] @
           ensure_first 0 10 5 6 @ ensure_later 1 11 7 8 @ shutdown_checked 0)
        (startup 2 (\<lambda>p. \<lparr>init = p, next_ptr = None\<rparr>) None None True True False))
   = Some (Some Abort_called, S_count 10,
           [(0, E_WaitNativeWorkersTermination),
            (0, E_consoleErrorf_int
                  ''Cannot run checkers when there are %d alive runtimes at the shutdown'' 1),
            (0, E_abort)])"
  by (simp add: ensure_first_def ensure_later_def shutdown_checked_def eval_defs)

end
